theory Spec2Isabelle
  imports Main "HOL-Library.Sublist"
begin

section \<open>Strings\<close>

text \<open>
  A JavaScript string is a sequence of UTF-16 code units. The model is \<open>string\<close>, whose
  characters are the code units below 256 (ASCII and Latin-1): every literal of the
  source and of the specification lies there. \<open>code c\<close> is the code unit of \<open>c\<close>.
\<close>

definition code :: "char \<Rightarrow> nat" where
  "code c = of_char c"

text \<open>The character class \<open>[a-z0-9]\<close> of the slug pattern, and \<open>\d\<close>.\<close>

definition isDigit :: "char \<Rightarrow> bool" where
  "isDigit c = (48 \<le> code c \<and> code c \<le> 57)"

definition isLowerAlnum :: "char \<Rightarrow> bool" where
  "isLowerAlnum c = ((97 \<le> code c \<and> code c \<le> 122) \<or> isDigit c)"

text \<open>
  White space and line terminators, as \<open>String.prototype.trim\<close> and the class \<open>\s\<close>
  read them: TAB, LF, VT, FF, CR, SP and NBSP are the ones below 256.
\<close>

definition isWhiteSpace :: "char \<Rightarrow> bool" where
  "isWhiteSpace c = (code c = 9 \<or> code c = 10 \<or> code c = 11 \<or> code c = 12 \<or>
     code c = 13 \<or> code c = 32 \<or> code c = 160)"

definition isHyphen :: "char \<Rightarrow> bool" where
  "isHyphen c = (c = CHR ''-'')"

text \<open>
  \<open>String.prototype.toLowerCase\<close> on code units below 256: \<open>A-Z\<close> and the Latin-1
  capitals (192 to 222 but the multiplication sign 215) move up by 32.
\<close>

definition lowerChar :: "char \<Rightarrow> char" where
  "lowerChar c =
     (if (65 \<le> code c \<and> code c \<le> 90) \<or> (192 \<le> code c \<and> code c \<le> 222 \<and> code c \<noteq> 215)
      then char_of (code c + 32) else c)"

definition toLowerCase :: "string \<Rightarrow> string" where
  "toLowerCase s = map lowerChar s"

definition trim :: "string \<Rightarrow> string" where
  "trim s = rev (dropWhile isWhiteSpace (rev (dropWhile isWhiteSpace s)))"

section \<open>The slug generator\<close>

text \<open>
  \<open>replace(/[^a-z0-9]+/g, '-')\<close>: scanning from the left, every maximal run of
  characters outside \<open>[a-z0-9]\<close> becomes one hyphen.
\<close>

function replaceNonAlnumRuns :: "string \<Rightarrow> string" where
  "replaceNonAlnumRuns [] = []"
| "replaceNonAlnumRuns (c # cs) =
     (if isLowerAlnum c then c # replaceNonAlnumRuns cs
      else CHR ''-'' # replaceNonAlnumRuns (dropWhile (\<lambda>d. \<not> isLowerAlnum d) cs))"
  by pat_completeness auto
termination
  by (relation "measure length") (auto simp: less_Suc_eq_le length_dropWhile_le)

text \<open>
  \<open>replace(/^-+|-+$/g, '')\<close>: the run of hyphens at the start and the run of hyphens
  at the end are removed.
\<close>

definition stripHyphens :: "string \<Rightarrow> string" where
  "stripHyphens s = rev (dropWhile isHyphen (rev (dropWhile isHyphen s)))"

definition generateSlug :: "string \<Rightarrow> string" where
  "generateSlug v = stripHyphens (replaceNonAlnumRuns (trim (toLowerCase v)))"

text \<open>
  The contract in the words of the specification: the maximal alphanumeric runs of the
  lowercased title, joined by single hyphens.
\<close>

function alnumRuns :: "string \<Rightarrow> string list" where
  "alnumRuns [] = []"
| "alnumRuns (c # cs) =
     (if isLowerAlnum c then (c # takeWhile isLowerAlnum cs) # alnumRuns (dropWhile isLowerAlnum cs)
      else alnumRuns cs)"
  by pat_completeness auto
termination
  by (relation "measure length") (auto simp: less_Suc_eq_le length_dropWhile_le)

fun joinHyphen :: "string list \<Rightarrow> string" where
  "joinHyphen [] = []"
| "joinHyphen [w] = w"
| "joinHyphen (w # ws) = w @ CHR ''-'' # joinHyphen ws"

definition slugSpec :: "string \<Rightarrow> string" where
  "slugSpec v = joinHyphen (alnumRuns (toLowerCase v))"

definition isSlugChar :: "char \<Rightarrow> bool" where
  "isSlugChar c = (isLowerAlnum c \<or> isHyphen c)"


text \<open>Auxiliary notions for the proofs about the slug: the joined runs of a string that is
  already lowercase, and the hyphen that the first replacement leaves before and after them.\<close>

definition coreS :: "string \<Rightarrow> string" where "coreS s = joinHyphen (alnumRuns s)"

definition preH :: "string \<Rightarrow> string" where
  "preH s = (if s \<noteq> [] \<and> \<not> isLowerAlnum (hd s) then ''-'' else [])"

definition postH :: "string \<Rightarrow> string" where
  "postH s = (if alnumRuns s \<noteq> [] \<and> \<not> isLowerAlnum (last s) then ''-'' else [])"

section \<open>Regular expressions\<close>

text \<open>
  The patterns of the source are written in a small abstract syntax and run by a
  backtracking matcher. \<open>rxm r (s, g)\<close> lists, in the order in which a backtracking engine
  tries them, the ways in which \<open>r\<close> matches a prefix of \<open>s\<close>: each with the rest of the
  input and the captures so far (group number and captured text, latest first).
  Quantifiers are greedy: the longest repetition comes first.
\<close>

datatype rx =
    Chr char
  | Str string
  | Cls "char \<Rightarrow> bool"
  | Seq rx rx
  | Alt rx rx
  | Opt rx
  | Rep "char \<Rightarrow> bool" nat nat
  | Star "char \<Rightarrow> bool"
  | Plus "char \<Rightarrow> bool"
  | Grp nat rx

type_synonym captures = "(nat \<times> string) list"

definition repeats :: "(char \<Rightarrow> bool) \<Rightarrow> nat \<Rightarrow> nat \<Rightarrow> string \<times> captures \<Rightarrow> (string \<times> captures) list" where
  "repeats P lo hi st =
     (let n = min hi (length (takeWhile P (fst st)))
      in map (\<lambda>k. (drop k (fst st), snd st)) (rev [lo..<Suc n]))"

fun rxm :: "rx \<Rightarrow> string \<times> captures \<Rightarrow> (string \<times> captures) list" where
  "rxm (Chr c) st = (case fst st of [] \<Rightarrow> [] | x # xs \<Rightarrow> if x = c then [(xs, snd st)] else [])"
| "rxm (Str w) st = (if prefix w (fst st) then [(drop (length w) (fst st), snd st)] else [])"
| "rxm (Cls P) st = (case fst st of [] \<Rightarrow> [] | x # xs \<Rightarrow> if P x then [(xs, snd st)] else [])"
| "rxm (Seq a b) st = concat (map (rxm b) (rxm a st))"
| "rxm (Alt a b) st = rxm a st @ rxm b st"
| "rxm (Opt a) st = rxm a st @ [st]"
| "rxm (Rep P lo hi) st = repeats P lo hi st"
| "rxm (Star P) st = repeats P 0 (length (fst st)) st"
| "rxm (Plus P) st = repeats P 1 (length (fst st)) st"
| "rxm (Grp i a) st =
     map (\<lambda>r. (fst r, (i, take (length (fst st) - length (fst r)) (fst st)) # snd r)) (rxm a st)"

text \<open>
  A pattern anchored at both ends, \<open>/^r$/\<close>: the first way of matching that consumes the
  whole input, if there is one. \<open>capture g i\<close> is \<open>m[i]\<close>, \<open>None\<close> for \<open>undefined\<close>.
\<close>

definition rxMatch :: "rx \<Rightarrow> string \<Rightarrow> captures option" where
  "rxMatch r s =
     (case filter (\<lambda>st. fst st = []) (rxm r (s, [])) of
        [] \<Rightarrow> None
      | st # _ \<Rightarrow> Some (snd st))"

definition rxTest :: "rx \<Rightarrow> string \<Rightarrow> bool" where
  "rxTest r s = (rxMatch r s \<noteq> None)"

definition capture :: "captures \<Rightarrow> nat \<Rightarrow> string option" where
  "capture g i = map_of g i"

section \<open>Numbers and their decimal text\<close>

definition digitVal :: "char \<Rightarrow> int" where
  "digitVal c = int (code c) - 48"

text \<open>\<open>Number(s)\<close> for a string of decimal digits.\<close>

definition Number :: "string \<Rightarrow> int" where
  "Number s = foldl (\<lambda>a c. 10 * a + digitVal c) 0 s"

definition digitChar :: "nat \<Rightarrow> char" where
  "digitChar n = char_of (48 + n)"

text \<open>\<open>String(n)\<close> for a natural number, and \<open>padStart(k, '0')\<close>; \<open>pad k n\<close> is
  \<open>String(n).padStart(k, '0')\<close> for the numbers that the source formats, none of which is
  negative.\<close>

fun String :: "nat \<Rightarrow> string" where
  "String n = (if n < 10 then [digitChar n] else String (n div 10) @ [digitChar (n mod 10)])"

declare String.simps [simp del]

definition padStart :: "nat \<Rightarrow> string \<Rightarrow> string" where
  "padStart k s = replicate (k - length s) CHR ''0'' @ s"

definition pad :: "nat \<Rightarrow> int \<Rightarrow> string" where
  "pad k n = padStart k (String (nat n))"

section \<open>The Date object of the host\<close>

text \<open>
  \<open>normalizeTime\<close> and \<open>normalizeDate\<close> call the built-in \<open>Date\<close>. A time value is
  a number of milliseconds since 1970-01-01T00:00:00Z; \<open>None\<close> stands for \<open>NaN\<close>, the time
  value of an invalid Date. The day and year arithmetic is that of ECMA-262 (Time Values
  and Time Range, Day Number and Time within Day, Year Number, Month Number, Date
  Number); \<open>div\<close> and \<open>mod\<close> on \<open>int\<close> are its \<open>floor\<close> and \<open>modulo\<close>.
\<close>

definition msPerDay :: int where "msPerDay = 86400000"
definition msPerHour :: int where "msPerHour = 3600000"
definition msPerMinute :: int where "msPerMinute = 60000"
definition msPerSecond :: int where "msPerSecond = 1000"

definition Day :: "int \<Rightarrow> int" where
  "Day t = t div msPerDay"

definition DaysInYear :: "int \<Rightarrow> int" where
  "DaysInYear y =
     (if y mod 4 \<noteq> 0 then 365 else if y mod 100 \<noteq> 0 then 366
      else if y mod 400 \<noteq> 0 then 365 else 366)"

definition DayFromYear :: "int \<Rightarrow> int" where
  "DayFromYear y = 365 * (y - 1970) + (y - 1969) div 4 - (y - 1901) div 100 + (y - 1601) div 400"

definition InLeapYear :: "int \<Rightarrow> int" where
  "InLeapYear y = (if DaysInYear y = 366 then 1 else 0)"

text \<open>A year starts \<open>DaysInYear\<close> days after the year before it: the year search below
  terminates because of it.\<close>

lemma div_step: "0 < k \<Longrightarrow> (a + 1) div k = a div k + (if (a + 1) mod k = 0 then 1 else 0)" for a k :: int
proof -
  assume k: "0 < k"
  have e1: "a + 1 = k * ((a + 1) div k) + (a + 1) mod k" by simp
  have b1: "0 \<le> (a + 1) mod k" "(a + 1) mod k < k" using k by simp_all
  show ?thesis
  proof (cases "(a + 1) mod k = 0")
    case True
    then have "a = k * ((a + 1) div k - 1) + (k - 1)" using e1 by (simp add: algebra_simps)
    then have "a div k = (a + 1) div k - 1"
      by (rule int_div_pos_eq) (use k in simp_all)
    with True show ?thesis by simp
  next
    case False
    then have p: "0 < (a + 1) mod k" using b1 by linarith
    then have "a = k * ((a + 1) div k) + ((a + 1) mod k - 1)" using e1 by (simp add: algebra_simps)
    then have "a div k = (a + 1) div k"
      by (rule int_div_pos_eq) (use p b1 in linarith)+
    with False show ?thesis by simp
  qed
qed

lemma mod_shift: "(y - k * c) mod k = y mod k" for y k c :: int
  using mod_mult_self2[of y k "- c"] by simp

lemma DayFromYear_next: "DayFromYear (y + 1) = DayFromYear y + DaysInYear y"
proof -
  have m4: "(y - 1968) mod 4 = y mod 4" using mod_shift[of y 4 492] by simp
  have m100: "(y - 1900) mod 100 = y mod 100" using mod_shift[of y 100 19] by simp
  have m400: "(y - 1600) mod 400 = y mod 400" using mod_shift[of y 400 4] by simp
  have a: "(y + 1 - 1969) div 4 = (y - 1969) div 4 + (if y mod 4 = 0 then 1 else 0)"
    using div_step[of 4 "y - 1969"] m4 by (simp add: algebra_simps)
  have b: "(y + 1 - 1901) div 100 = (y - 1901) div 100 + (if y mod 100 = 0 then 1 else 0)"
    using div_step[of 100 "y - 1901"] m100 by (simp add: algebra_simps)
  have c: "(y + 1 - 1601) div 400 = (y - 1601) div 400 + (if y mod 400 = 0 then 1 else 0)"
    using div_step[of 400 "y - 1601"] m400 by (simp add: algebra_simps)
  have d1: "y mod 400 = 0 \<Longrightarrow> y mod 100 = 0"
    using dvd_trans[of 100 400 y] by (simp add: mod_eq_0_iff_dvd)
  have d2: "y mod 100 = 0 \<Longrightarrow> y mod 4 = 0"
    using dvd_trans[of 4 100 y] by (simp add: mod_eq_0_iff_dvd)
  show ?thesis
    unfolding DayFromYear_def DaysInYear_def a b c using d1 d2 by auto
qed

lemma DaysInYear_pos: "365 \<le> DaysInYear y" "DaysInYear y \<le> 366"
  by (simp_all add: DaysInYear_def)

text \<open>
  The year of a day number \<open>d\<close> is the largest \<open>y\<close> with \<open>DayFromYear y \<le> d\<close>. It is found
  from an estimate, by stepping down while the year starts after \<open>d\<close> and then up while
  the next year starts on or before \<open>d\<close>.
\<close>

function yearDown :: "int \<Rightarrow> int \<Rightarrow> int" where
  "yearDown d y = (if DayFromYear y \<le> d then y else yearDown d (y - 1))"
  by pat_completeness auto
termination
proof (relation "measure (\<lambda>(d, y). nat (DayFromYear y - d))")
  show "wf (measure (\<lambda>(d, y). nat (DayFromYear y - d)))" by simp
next
  fix d y :: int
  assume a: "\<not> DayFromYear y \<le> d"
  have "DayFromYear (y - 1) < DayFromYear y"
    using DayFromYear_next[of "y - 1"] DaysInYear_pos(1)[of "y - 1"] by simp
  with a show "((d, y - 1), (d, y)) \<in> measure (\<lambda>(d, y). nat (DayFromYear y - d))"
    by simp
qed

function yearUp :: "int \<Rightarrow> int \<Rightarrow> int" where
  "yearUp d y = (if d < DayFromYear (y + 1) then y else yearUp d (y + 1))"
  by pat_completeness auto
termination
proof (relation "measure (\<lambda>(d, y). nat (d + 1 - DayFromYear (y + 1)))")
  show "wf (measure (\<lambda>(d, y). nat (d + 1 - DayFromYear (y + 1))))" by simp
next
  fix d y :: int
  assume a: "\<not> d < DayFromYear (y + 1)"
  have "DayFromYear (y + 1) < DayFromYear (y + 1 + 1)"
    using DayFromYear_next[of "y + 1"] DaysInYear_pos(1)[of "y + 1"] by simp
  with a show "((d, y + 1), (d, y)) \<in> measure (\<lambda>(d, y). nat (d + 1 - DayFromYear (y + 1)))"
    by simp
qed

declare yearDown.simps [simp del] yearUp.simps [simp del]

definition YearFromDay :: "int \<Rightarrow> int" where
  "YearFromDay d = yearUp d (yearDown d (1970 + (400 * d) div 146097))"

definition YearFromTime :: "int \<Rightarrow> int" where
  "YearFromTime t = YearFromDay (Day t)"

definition DayWithinYear :: "int \<Rightarrow> int" where
  "DayWithinYear t = Day t - DayFromYear (YearFromTime t)"

text \<open>The day within the year on which month \<open>m\<close> (0 to 11) starts; \<open>l\<close> is 1 in a leap year.\<close>

definition monthStart :: "int \<Rightarrow> int \<Rightarrow> int" where
  "monthStart m l =
     (if m = 0 then 0 else if m = 1 then 31 else if m = 2 then 59 + l
      else if m = 3 then 90 + l else if m = 4 then 120 + l else if m = 5 then 151 + l
      else if m = 6 then 181 + l else if m = 7 then 212 + l else if m = 8 then 243 + l
      else if m = 9 then 273 + l else if m = 10 then 304 + l else 334 + l)"

definition monthOfDay :: "int \<Rightarrow> int \<Rightarrow> int" where
  "monthOfDay w l =
     (if w < 31 then 0 else if w < 59 + l then 1 else if w < 90 + l then 2
      else if w < 120 + l then 3 else if w < 151 + l then 4 else if w < 181 + l then 5
      else if w < 212 + l then 6 else if w < 243 + l then 7 else if w < 273 + l then 8
      else if w < 304 + l then 9 else if w < 334 + l then 10 else 11)"

definition MonthFromTime :: "int \<Rightarrow> int" where
  "MonthFromTime t = monthOfDay (DayWithinYear t) (InLeapYear (YearFromTime t))"

definition DateFromTime :: "int \<Rightarrow> int" where
  "DateFromTime t =
     DayWithinYear t - monthStart (MonthFromTime t) (InLeapYear (YearFromTime t)) + 1"

definition HourFromTime :: "int \<Rightarrow> int" where
  "HourFromTime t = (t div msPerHour) mod 24"

definition MinFromTime :: "int \<Rightarrow> int" where
  "MinFromTime t = (t div msPerMinute) mod 60"

definition SecFromTime :: "int \<Rightarrow> int" where
  "SecFromTime t = (t div msPerSecond) mod 60"

definition msFromTime :: "int \<Rightarrow> int" where
  "msFromTime t = t mod msPerSecond"

definition MakeTime :: "int \<Rightarrow> int \<Rightarrow> int \<Rightarrow> int \<Rightarrow> int" where
  "MakeTime h m s ms = h * msPerHour + m * msPerMinute + s * msPerSecond + ms"

text \<open>\<open>MakeDay(year, month, date)\<close> with \<open>month\<close> counted from 0: the day number of the first
  of the month, plus \<open>date - 1\<close>.\<close>

definition MakeDay :: "int \<Rightarrow> int \<Rightarrow> int \<Rightarrow> int" where
  "MakeDay year month date =
     (let ym = year + month div 12; mn = month mod 12
      in DayFromYear ym + monthStart mn (InLeapYear ym) + date - 1)"

definition MakeDate :: "int \<Rightarrow> int \<Rightarrow> int" where
  "MakeDate day time = day * msPerDay + time"

definition TimeClip :: "int \<Rightarrow> int option" where
  "TimeClip t = (if \<bar>t\<bar> > 8640000000000000 then None else Some t)"

subsection \<open>Parsing\<close>

text \<open>
  What a date string denotes before it becomes a time value: calendar fields (the month
  counted from 1) and the zone they are meant in, an offset from UTC in minutes or the
  local time of the host.
\<close>

datatype zone = Offset int | LocalTime

record dateFields =
  yearF :: int
  monthF :: int
  dayF :: int
  hourF :: int
  minuteF :: int
  secondF :: int
  msF :: int
  zoneF :: zone

text \<open>
  What \<open>Date\<close> takes from the host: \<open>LocalTZA h t\<close> is the offset of local time from UTC, in
  milliseconds, at the local time value \<open>t\<close>; \<open>legacyParse h s\<close> is the reading of a
  string \<open>s\<close> that is not in the Date Time String Format, which ECMA-262 leaves to the
  implementation (\<open>None\<close> where the implementation does not recognise the string).
\<close>

record host =
  LocalTZA :: "int \<Rightarrow> int"
  legacyParse :: "string \<Rightarrow> dateFields option"

text \<open>\<open>readDigits n s\<close> reads exactly \<open>n\<close> decimal digits at the start of \<open>s\<close>.\<close>

definition readDigits :: "nat \<Rightarrow> string \<Rightarrow> (int \<times> string) option" where
  "readDigits n s =
     (if n \<le> length s \<and> list_all isDigit (take n s) then Some (Number (take n s), drop n s)
      else None)"

text \<open>
  The Date Time String Format \<open>YYYY-MM-DDTHH:mm:ss.sssZ\<close> of ECMA-262: the year is
  \<open>YYYY\<close> or an expanded year \<open>+YYYYYY\<close> or \<open>-YYYYYY\<close> (but not \<open>-000000\<close>); \<open>-MM\<close>
  and \<open>-DD\<close> may follow; then, optionally, \<open>THH:mm\<close>, \<open>THH:mm:ss\<close> or
  \<open>THH:mm:ss.sss\<close>, and after a time \<open>Z\<close> or an offset \<open>+HH:mm\<close> or \<open>-HH:mm\<close>.
  Each reader returns what it read and the rest of the input.
\<close>

definition isoYear :: "string \<Rightarrow> (int \<times> string) option" where
  "isoYear s =
     (case s of
        [] \<Rightarrow> None
      | c # cs \<Rightarrow>
          if c = CHR ''+'' then readDigits 6 cs
          else if c = CHR ''-'' then
            (case readDigits 6 cs of
               None \<Rightarrow> None
             | Some (y, r) \<Rightarrow> if y = 0 then None else Some (- y, r))
          else readDigits 4 s)"

text \<open>An optional \<open>c\<close> followed by \<open>n\<close> digits; the default \<open>d\<close> where \<open>c\<close> does not come next.\<close>

definition isoOptional :: "char \<Rightarrow> nat \<Rightarrow> int \<Rightarrow> string \<Rightarrow> (int \<times> bool \<times> string) option" where
  "isoOptional c n d s =
     (case s of
        [] \<Rightarrow> Some (d, False, s)
      | x # xs \<Rightarrow>
          if x = c then (case readDigits n xs of None \<Rightarrow> None | Some (v, r) \<Rightarrow> Some (v, True, r))
          else Some (d, False, s))"

definition isoZone :: "string \<Rightarrow> zone option" where
  "isoZone s =
     (if s = [] then Some LocalTime
      else if s = ''Z'' then Some (Offset 0)
      else if hd s = CHR ''+'' \<or> hd s = CHR ''-'' then
        (case readDigits 2 (tl s) of
           None \<Rightarrow> None
         | Some (zh, r) \<Rightarrow>
             (case r of
                [] \<Rightarrow> None
              | x # xs \<Rightarrow>
                  if x \<noteq> CHR '':'' then None
                  else (case readDigits 2 xs of
                          None \<Rightarrow> None
                        | Some (zm, r') \<Rightarrow>
                            if r' \<noteq> [] \<or> zh > 23 \<or> zm > 59 then None
                            else Some (Offset ((if hd s = CHR ''-'' then - 1 else 1) * (zh * 60 + zm))))))
      else None)"

definition isoTime :: "string \<Rightarrow> (int \<times> int \<times> int \<times> int \<times> zone) option" where
  "isoTime s =
     (case readDigits 2 s of
        None \<Rightarrow> None
      | Some (h, r1) \<Rightarrow>
          (case r1 of
             [] \<Rightarrow> None
           | x # xs \<Rightarrow>
               if x \<noteq> CHR '':'' then None
               else (case readDigits 2 xs of
                       None \<Rightarrow> None
                     | Some (mi, r2) \<Rightarrow>
                         (case isoOptional CHR '':'' 2 0 r2 of
                            None \<Rightarrow> None
                          | Some (sec, hasSec, r3) \<Rightarrow>
                              (case (if hasSec then isoOptional CHR ''.'' 3 0 r3 else Some (0, False, r3)) of
                                 None \<Rightarrow> None
                               | Some (ms, hasMs, r4) \<Rightarrow>
                                   (case isoZone r4 of
                                      None \<Rightarrow> None
                                    | Some z \<Rightarrow> Some (h, mi, sec, ms, z)))))))"

definition isoFormat :: "string \<Rightarrow> dateFields option" where
  "isoFormat s =
     (case isoYear s of
        None \<Rightarrow> None
      | Some (y, r1) \<Rightarrow>
          (case isoOptional CHR ''-'' 2 1 r1 of
             None \<Rightarrow> None
           | Some (mo, hasMonth, r2) \<Rightarrow>
               (case (if hasMonth then isoOptional CHR ''-'' 2 1 r2 else Some (1, False, r2)) of
                  None \<Rightarrow> None
                | Some (dd, hasDay, r3) \<Rightarrow>
                    (case r3 of
                       [] \<Rightarrow> Some \<lparr>yearF = y, monthF = mo, dayF = dd, hourF = 0, minuteF = 0,
                                   secondF = 0, msF = 0, zoneF = Offset 0\<rparr>
                     | x # xs \<Rightarrow>
                         if x \<noteq> CHR ''T'' then None
                         else (case isoTime xs of
                                 None \<Rightarrow> None
                               | Some (h, mi, sec, ms, z) \<Rightarrow>
                                   Some \<lparr>yearF = y, monthF = mo, dayF = dd, hourF = h, minuteF = mi,
                                         secondF = sec, msF = ms, zoneF = z\<rparr>)))))"

text \<open>
  The element values a string in the format may carry: months 01 to 12, days 01 to 31,
  hours 00 to 24, minutes and seconds 00 to 59; the hour 24 only as \<open>24:00:00.000\<close>.
  The day is held against the format's bound of 31 and not against the length of the
  month (as V8, the engine of Node.js, does): \<open>MakeDay\<close> carries a day past the end of
  the month into the next month.
\<close>

definition fieldsInBounds :: "dateFields \<Rightarrow> bool" where
  "fieldsInBounds f =
     (1 \<le> monthF f \<and> monthF f \<le> 12 \<and> 1 \<le> dayF f \<and> dayF f \<le> 31 \<and>
      hourF f \<le> 24 \<and> minuteF f \<le> 59 \<and> secondF f \<le> 59 \<and>
      (hourF f = 24 \<longrightarrow> minuteF f = 0 \<and> secondF f = 0 \<and> msF f = 0))"

text \<open>
  The time value of calendar fields: fields meant in local time are moved to UTC by the
  host's offset at that local time, and a value outside the time range is \<open>NaN\<close>.
\<close>

definition timeOfFields :: "host \<Rightarrow> dateFields \<Rightarrow> int option" where
  "timeOfFields h f =
     (let t = MakeDate (MakeDay (yearF f) (monthF f - 1) (dayF f))
                       (MakeTime (hourF f) (minuteF f) (secondF f) (msF f))
      in TimeClip (case zoneF f of
                     Offset minutes \<Rightarrow> t - minutes * msPerMinute
                   | LocalTime \<Rightarrow> t - LocalTZA h t))"

text \<open>
  \<open>new Date(s).getTime()\<close>: a string in the Date Time String Format is read by the
  format, and is invalid when an element value is out of bounds; any other string is left
  to the host.
\<close>

definition Date_parse :: "host \<Rightarrow> string \<Rightarrow> int option" where
  "Date_parse h s =
     (case isoFormat s of
        Some f \<Rightarrow> if fieldsInBounds f then timeOfFields h f else None
      | None \<Rightarrow> (case legacyParse h s of None \<Rightarrow> None | Some f \<Rightarrow> timeOfFields h f))"

text \<open>\<open>toISOString\<close>: the UTC fields of a time value; years outside 0 to 9999 are written
  with a sign and six digits.\<close>

definition isoYearText :: "int \<Rightarrow> string" where
  "isoYearText y =
     (if 0 \<le> y \<and> y \<le> 9999 then pad 4 y
      else (if y < 0 then ''-'' else ''+'') @ pad 6 \<bar>y\<bar>)"

definition toISOString :: "int \<Rightarrow> string" where
  "toISOString t =
     isoYearText (YearFromTime t) @ ''-'' @ pad 2 (MonthFromTime t + 1) @ ''-'' @
     pad 2 (DateFromTime t) @ ''T'' @ pad 2 (HourFromTime t) @ '':'' @ pad 2 (MinFromTime t) @
     '':'' @ pad 2 (SecFromTime t) @ ''.'' @ pad 3 (msFromTime t) @ ''Z''"

section \<open>Errors\<close>

text \<open>
  Every \<open>throw\<close> of the source and every way in which a save is rejected is a value:
  the four messages of the normalizers, the rejection of the Booking hook, a Mongoose
  validation error with the failing paths and the kind of validator that failed on each,
  and the duplicate-key error of a unique index.
\<close>

datatype validatorKind = Required | UserDefined

datatype error =
    TimeRequired
  | InvalidTimeFormat
  | InvalidTimeValue
  | DateRequired
  | InvalidDate
  | ReferencedEventMissing
  | ValidationError "(string \<times> validatorKind) list"
  | DuplicateKey string

section \<open>The time and date normalizers\<close>

text \<open>The fallback pattern \<open>/^(\d{1,2})(?::|\.|h)?(\d{2})?\s*(AM|PM|am|pm)?$/\<close>.\<close>

definition timeRe :: rx where
  "timeRe =
     Seq (Grp 1 (Rep isDigit 1 2))
    (Seq (Opt (Alt (Chr CHR '':'') (Alt (Chr CHR ''.'') (Chr CHR ''h''))))
    (Seq (Opt (Grp 2 (Rep isDigit 2 2)))
    (Seq (Star isWhiteSpace)
         (Opt (Grp 3 (Alt (Str ''AM'') (Alt (Str ''PM'') (Alt (Str ''am'') (Str ''pm'')))))))))"

text \<open>The 12-hour to 24-hour step: \<open>ampm\<close> is \<open>m[3]\<close>.\<close>

definition applyAmPm :: "string option \<Rightarrow> int \<Rightarrow> int" where
  "applyAmPm ampm hour =
     (case ampm of
        None \<Rightarrow> hour
      | Some w \<Rightarrow>
          (let a = toLowerCase w;
               hour1 = (if a = ''pm'' \<and> hour < 12 then hour + 12 else hour)
           in if a = ''am'' \<and> hour1 = 12 then 0 else hour1))"

text \<open>
  \<open>normalizeTime\<close>: the empty string throws "Time is required". The trimmed input is
  first given to \<open>new Date\<close> behind the base date \<open>1970-01-01T\<close>; when the Date is
  valid the result is its \<open>getUTCHours\<close> and \<open>getUTCMinutes\<close>, each padded to two
  digits. Otherwise the fallback pattern is tried ("Invalid time format" when it does not
  match), the suffix is applied to the hour, and an hour or minute out of range throws
  "Invalid time value".
\<close>

definition normalizeTime :: "host \<Rightarrow> string \<Rightarrow> error + string" where
  "normalizeTime h v =
     (if v = [] then Inl TimeRequired
      else
        (let trimmed = trim v in
         case Date_parse h (''1970-01-01T'' @ trimmed) of
           Some t \<Rightarrow> Inr (pad 2 (HourFromTime t) @ '':'' @ pad 2 (MinFromTime t))
         | None \<Rightarrow>
             (case rxMatch timeRe trimmed of
                None \<Rightarrow> Inl InvalidTimeFormat
              | Some m \<Rightarrow>
                  (let hour = applyAmPm (capture m 3) (Number (case capture m 1 of None \<Rightarrow> [] | Some w \<Rightarrow> w));
                       minute = (case capture m 2 of None \<Rightarrow> 0 | Some w \<Rightarrow> Number w)
                   in if hour < 0 \<or> hour > 23 \<or> minute < 0 \<or> minute > 59 then Inl InvalidTimeValue
                      else Inr (pad 2 hour @ '':'' @ pad 2 minute)))))"

text \<open>
  \<open>normalizeDate\<close>: the empty string throws "Date is required", a string that \<open>new Date\<close>
  cannot parse throws "Invalid date", and the result is \<open>toISOString().slice(0, 10)\<close>.
\<close>

definition normalizeDate :: "host \<Rightarrow> string \<Rightarrow> error + string" where
  "normalizeDate h v =
     (if v = [] then Inl DateRequired
      else
        (case Date_parse h v of
           None \<Rightarrow> Inl InvalidDate
         | Some t \<Rightarrow> Inr (take 10 (toISOString t))))"

text \<open>Hosts to evaluate on: one in UTC and one three hours east of it, both rejecting every
  string outside the Date Time String Format; and, for an offset \<open>tza\<close> in milliseconds,
  one that reads \<open>September 15, 2024\<close> as midnight of that day in local time, as the
  engines do. \<open>september15Midnight\<close> is the time value of that midnight before the
  offset is taken off.\<close>

definition utcHost :: host where
  "utcHost = \<lparr>LocalTZA = (\<lambda>t. 0), legacyParse = (\<lambda>s. None)\<rparr>"

definition eastHost :: host where
  "eastHost = \<lparr>LocalTZA = (\<lambda>t. 3 * msPerHour), legacyParse = (\<lambda>s. None)\<rparr>"

definition september15 :: dateFields where
  "september15 = \<lparr>yearF = 2024, monthF = 9, dayF = 15, hourF = 0, minuteF = 0, secondF = 0,
     msF = 0, zoneF = LocalTime\<rparr>"

definition september15Midnight :: int where
  "september15Midnight = MakeDate (MakeDay 2024 8 15) (MakeTime 0 0 0 0)"

definition legacyHost :: "int \<Rightarrow> host" where
  "legacyHost tza =
     \<lparr>LocalTZA = (\<lambda>t. tza),
      legacyParse = (\<lambda>s. if s = ''September 15, 2024'' then Some september15 else None)\<rparr>"

text \<open>The characters that the normalizers write.\<close>

definition isoChar :: "char \<Rightarrow> bool" where
  "isoChar c = (isDigit c \<or> c \<in> set ''-+T:.Z'')"

text \<open>Auxiliary notions for the proofs about the fallback pattern: the way of matching that a
  backtracking engine tries first, and the characters that may follow the hour in an
  hour-only input (white space, or the first letter of a suffix).\<close>

definition firstWay :: "rx \<Rightarrow> string \<times> captures \<Rightarrow> string \<times> captures \<Rightarrow> bool" where
  "firstWay r st st' = (case rxm r st of [] \<Rightarrow> False | x # xs \<Rightarrow> x = st')"

definition afterHour :: "char \<Rightarrow> bool" where
  "afterHour c = (isWhiteSpace c \<or> c = CHR ''A'' \<or> c = CHR ''P'' \<or> c = CHR ''a'' \<or> c = CHR ''p'')"

text \<open>Auxiliary notions for the proofs about dates: the date part of \<open>toISOString\<close> as a
  function of the day number, and the form \<open>YYYY-MM-DD\<close>.\<close>

definition dateText :: "int \<Rightarrow> string" where
  "dateText d =
     (let y = YearFromDay d; w = d - DayFromYear y; m = monthOfDay w (InLeapYear y)
      in isoYearText y @ ''-'' @ pad 2 (m + 1) @ ''-'' @ pad 2 (w - monthStart m (InLeapYear y) + 1))"

definition isYMD :: "string \<Rightarrow> bool" where
  "isYMD r =
     (length r = 10 \<and> list_all isDigit (take 4 r) \<and> r ! 4 = CHR ''-'' \<and>
      list_all isDigit (take 2 (drop 5 r)) \<and> r ! 7 = CHR ''-'' \<and> list_all isDigit (drop 8 r))"

section \<open>The Event and Booking models\<close>

text \<open>
  The fields of \<open>IEvent\<close> and \<open>IBooking\<close>, and a document: the fields with the
  \<open>_id\<close> that identifies it in its collection. The timestamps that Mongoose maintains
  are left out. An \<open>eventId\<close> that is missing is \<open>None\<close>.
\<close>

type_synonym objectId = nat

record IEvent =
  title :: string
  slug :: string
  description :: string
  overview :: string
  image' :: string
  venue :: string
  location :: string
  date :: string
  time :: string
  mode :: string
  audience :: string
  agenda :: "string list"
  organizer :: string
  tags :: "string list"

record EventDocument = IEvent +
  eventDocId :: objectId

record IBooking =
  eventId :: "objectId option"
  email :: string

record BookingDocument = IBooking +
  bookingDocId :: objectId

text \<open>
  The database: the two collections, and the operations that reached it, in order. The
  Event collection has the unique index on \<open>slug\<close> that the schema declares.
\<close>

datatype dbOp = ExistsEvent "objectId option" | InsertEvent objectId | InsertBooking objectId

record database =
  events :: "EventDocument list"
  bookings :: "BookingDocument list"
  oplog :: "dbOp list"

subsection \<open>Booking\<close>

text \<open>\<open>EMAIL_RE = /^[^\s@]+@[^\s@]+\.[^\s@]+$/\<close>.\<close>

definition notSpaceAt :: "char \<Rightarrow> bool" where
  "notSpaceAt c = (\<not> isWhiteSpace c \<and> c \<noteq> CHR ''@'')"

definition EMAIL_RE :: rx where
  "EMAIL_RE =
     Seq (Plus notSpaceAt) (Seq (Chr CHR ''@'') (Seq (Plus notSpaceAt)
    (Seq (Chr CHR ''.'') (Plus notSpaceAt))))"

text \<open>
  Setting a path runs its setters: \<open>lowercase\<close> and \<open>trim\<close> on \<open>email\<close>. Validation
  runs the validators of each path in order, \<open>required\<close> first, and reports, for each
  failing path, the first validator that failed.
\<close>

definition castBooking :: "'a IBooking_scheme \<Rightarrow> 'a IBooking_scheme" where
  "castBooking b = b\<lparr>email := trim (toLowerCase (email b))\<rparr>"

definition validateBooking :: "'a IBooking_scheme \<Rightarrow> (string \<times> validatorKind) list" where
  "validateBooking b =
     (if eventId b = None then [(''eventId'', Required)] else []) @
     (if email b = [] then [(''email'', Required)]
      else if \<not> rxTest EMAIL_RE (email b) then [(''email'', UserDefined)]
      else [])"

text \<open>
  The pre-save hook of the Booking schema: \<open>Event.exists({ _id: this.eventId })\<close> is one
  read of the Event collection; the hook throws when no Event has that \<open>_id\<close>.
\<close>

definition eventExists :: "database \<Rightarrow> objectId option \<Rightarrow> bool" where
  "eventExists db i = (case i of None \<Rightarrow> False | Some k \<Rightarrow> list_ex (\<lambda>e. eventDocId e = k) (events db))"

definition bookingPreSave :: "database \<Rightarrow> BookingDocument \<Rightarrow> error option \<times> database" where
  "bookingPreSave db b =
     (let found = eventExists db (eventId b);
          db1 = db\<lparr>oplog := oplog db @ [ExistsEvent (eventId b)]\<rparr>
      in if \<not> found then (Some ReferencedEventMissing, db1) else (None, db1))"

text \<open>
  \<open>save()\<close> of a new Booking: Mongoose validates the document, then runs the pre-save
  hook, then inserts it. The result is the saved document or the error, and the database
  afterwards.
\<close>

definition saveBooking :: "database \<Rightarrow> BookingDocument \<Rightarrow> (error + BookingDocument) \<times> database" where
  "saveBooking db b0 =
     (let b = castBooking b0; errs = validateBooking b
      in if errs \<noteq> [] then (Inl (ValidationError errs), db)
         else
           (case bookingPreSave db b of
              (Some e, db1) \<Rightarrow> (Inl e, db1)
            | (None, db1) \<Rightarrow>
                (Inr b, db1\<lparr>bookings := bookings db1 @ [b],
                             oplog := oplog db1 @ [InsertBooking (bookingDocId b)]\<rparr>)))"

subsection \<open>Event\<close>

text \<open>Every string path of the Event schema has the \<open>trim\<close> setter.\<close>

definition castEvent :: "'a IEvent_scheme \<Rightarrow> 'a IEvent_scheme" where
  "castEvent e =
     e\<lparr>title := trim (title e), slug := trim (slug e), description := trim (description e),
       overview := trim (overview e), image' := trim (image' e), venue := trim (venue e),
       location := trim (location e), date := trim (date e), time := trim (time e),
       mode := trim (mode e), audience := trim (audience e), organizer := trim (organizer e)\<rparr>"

definition requiredString :: "string \<Rightarrow> string \<Rightarrow> (string \<times> validatorKind) list" where
  "requiredString path v = (if v = [] then [(path, Required)] else [])"

definition nonEmptyArray :: "string \<Rightarrow> string list \<Rightarrow> (string \<times> validatorKind) list" where
  "nonEmptyArray path v = (if length v > 0 then [] else [(path, UserDefined)])"

definition validateEvent :: "'a IEvent_scheme \<Rightarrow> (string \<times> validatorKind) list" where
  "validateEvent e =
     (if title e = [] then [(''title'', Required)]
      else if \<not> length (trim (title e)) > 0 then [(''title'', UserDefined)] else []) @
     requiredString ''slug'' (slug e) @
     requiredString ''description'' (description e) @
     requiredString ''overview'' (overview e) @
     requiredString ''image'' (image' e) @
     requiredString ''venue'' (venue e) @
     requiredString ''location'' (location e) @
     requiredString ''date'' (date e) @
     requiredString ''time'' (time e) @
     requiredString ''mode'' (mode e) @
     requiredString ''audience'' (audience e) @
     nonEmptyArray ''agenda'' (agenda e) @
     requiredString ''organizer'' (organizer e) @
     nonEmptyArray ''tags'' (tags e)"

text \<open>
  The pre-save hook of the Event schema. \<open>isModified\<close> is the document's
  \<open>isModified(path)\<close>. The hook assigns to \<open>this\<close> as it goes, so the document it leaves
  behind is returned together with the error, if it threw. An assignment to a path runs
  the path's \<open>trim\<close> setter.
\<close>

definition eventPreSave ::
  "host \<Rightarrow> (string \<Rightarrow> bool) \<Rightarrow> EventDocument \<Rightarrow> EventDocument \<times> error option" where
  "eventPreSave h isModified doc =
     (let d1 = (if isModified ''title'' \<or> slug doc = []
                then doc\<lparr>slug := trim (generateSlug (title doc))\<rparr> else doc)
      in case (if isModified ''date''
               then (case normalizeDate h (date d1) of
                       Inl e \<Rightarrow> Inl e
                     | Inr v \<Rightarrow> Inr (d1\<lparr>date := trim v\<rparr>))
               else Inr d1) of
           Inl e \<Rightarrow> (d1, Some e)
         | Inr d2 \<Rightarrow>
             (if isModified ''time''
              then (case normalizeTime h (time d2) of
                      Inl e \<Rightarrow> (d2, Some e)
                    | Inr v \<Rightarrow> (d2\<lparr>time := trim v\<rparr>, None))
              else (d2, None)))"

text \<open>The insert into the Event collection: the unique index on \<open>slug\<close> rejects a document
  whose slug a stored document has.\<close>

definition insertEvent :: "database \<Rightarrow> EventDocument \<Rightarrow> (error + EventDocument) \<times> database" where
  "insertEvent db d =
     (if list_ex (\<lambda>e. slug e = slug d) (events db) then (Inl (DuplicateKey ''slug''), db)
      else (Inr d, db\<lparr>events := events db @ [d],
                       oplog := oplog db @ [InsertEvent (eventDocId d)]\<rparr>))"

text \<open>
  What the application does before the write: the setters, validation and the pre-save
  hook. Mongoose validates in a pre-save hook of its own that runs before the hooks of
  the schema, so the \<open>required\<close> validator of \<open>slug\<close> sees the slug that the caller
  gave, before the hook below replaces it. On a new document every path that was set
  counts as modified.
\<close>

definition eventPipeline :: "host \<Rightarrow> EventDocument \<Rightarrow> error + EventDocument" where
  "eventPipeline h e0 =
     (let e = castEvent e0; errs = validateEvent e
      in if errs \<noteq> [] then Inl (ValidationError errs)
         else (case eventPreSave h (\<lambda>path. True) e of
                 (d, Some err) \<Rightarrow> Inl err
               | (d, None) \<Rightarrow> Inr d))"

definition saveEvent :: "host \<Rightarrow> database \<Rightarrow> EventDocument \<Rightarrow> (error + EventDocument) \<times> database" where
  "saveEvent h db e0 =
     (case eventPipeline h e0 of
        Inl err \<Rightarrow> (Inl err, db)
      | Inr d \<Rightarrow> insertEvent db d)"

text \<open>Documents and a database to evaluate on.\<close>

definition emptyDb :: database where
  "emptyDb = \<lparr>events = [], bookings = [], oplog = []\<rparr>"

definition sampleEvent :: "string \<Rightarrow> objectId \<Rightarrow> EventDocument" where
  "sampleEvent t i =
     \<lparr>title = t, slug = ''draft'', description = ''An evening of talks'', overview = ''Talks'',
      image' = ''/images/event1.png'', venue = ''Main hall'', location = ''location-1'',
      date = ''2024-09-15'', time = ''9:30 AM'', mode = ''offline'', audience = ''developers'',
      agenda = [''Opening''], organizer = ''The Hub'', tags = [''tech''], eventDocId = i\<rparr>"

definition sampleBooking :: "objectId \<Rightarrow> string \<Rightarrow> BookingDocument" where
  "sampleBooking i e = \<lparr>eventId = Some i, email = e, bookingDocId = 7\<rparr>"

text \<open>The database after the first sample Event was saved.\<close>

definition savedDb :: database where
  "savedDb = snd (saveEvent utcHost emptyDb (sampleEvent ''Hello, World!'' 101))"

section \<open>Properties of the slug generator\<close>


lemma hyphen_not_alnum: "\<not> isLowerAlnum CHR ''-''"
  by (simp add: isLowerAlnum_def isDigit_def code_def)

lemma ws_not_alnum: "isWhiteSpace c \<Longrightarrow> \<not> isLowerAlnum c"
  by (auto simp add: isLowerAlnum_def isDigit_def isWhiteSpace_def)

lemma replace_Cons_non:
  "\<not> isLowerAlnum c \<Longrightarrow> replaceNonAlnumRuns (c # cs) =
     (if cs \<noteq> [] \<and> \<not> isLowerAlnum (hd cs) then replaceNonAlnumRuns cs
      else CHR ''-'' # replaceNonAlnumRuns cs)"
  by (cases cs) auto

lemma alnumRuns_empty: "alnumRuns s = [] \<longleftrightarrow> (\<forall>c\<in>set s. \<not> isLowerAlnum c)"
  by (induction s rule: alnumRuns.induct) auto

lemma alnumRuns_Cons_alnum:
  "isLowerAlnum c \<Longrightarrow> alnumRuns (c # cs) =
     (if cs \<noteq> [] \<and> isLowerAlnum (hd cs) then (c # hd (alnumRuns cs)) # tl (alnumRuns cs)
      else [c] # alnumRuns cs)"
  by (cases cs) auto

lemma alnumRuns_hd: "s \<noteq> [] \<Longrightarrow> isLowerAlnum (hd s) \<Longrightarrow> alnumRuns s \<noteq> [] \<and> hd (alnumRuns s) \<noteq> []"
  by (cases s) auto

lemma joinHyphen_Cons: "joinHyphen (w # ws) = (if ws = [] then w else w @ CHR ''-'' # joinHyphen ws)"
  by (cases ws) auto

lemma joinHyphen_Cons_Cons: "joinHyphen ((c # w) # ws) = c # joinHyphen (w # ws)"
  by (cases ws) auto


lemma core_Cons_alnum:
  assumes "isLowerAlnum c"
  shows "coreS (c # cs) =
     (if cs \<noteq> [] \<and> isLowerAlnum (hd cs) then c # coreS cs
      else if alnumRuns cs = [] then [c] else c # CHR ''-'' # coreS cs)"
proof (cases "cs \<noteq> [] \<and> isLowerAlnum (hd cs)")
  case True
  then obtain w ws where w: "alnumRuns cs = w # ws"
    using alnumRuns_hd[of cs] by (cases "alnumRuns cs") auto
  have "alnumRuns (c # cs) = (c # w) # ws"
    using assms True w by (simp only: alnumRuns_Cons_alnum) simp
  then show ?thesis using True w by (simp add: coreS_def joinHyphen_Cons_Cons del: alnumRuns.simps)
next
  case False
  then have "alnumRuns (c # cs) = [c] # alnumRuns cs"
    using assms by (simp only: alnumRuns_Cons_alnum) auto
  then show ?thesis using False by (simp add: coreS_def joinHyphen_Cons del: alnumRuns.simps)
qed

lemma core_Cons_non: "\<not> isLowerAlnum c \<Longrightarrow> coreS (c # cs) = coreS cs"
  by (simp add: coreS_def)

lemma core_empty: "coreS s = [] \<longleftrightarrow> alnumRuns s = []"
  unfolding coreS_def
  by (induction s rule: alnumRuns.induct) (auto simp: joinHyphen_Cons)


lemma replace_alnum_only: "alnumRuns s = [] \<Longrightarrow> s \<noteq> [] \<Longrightarrow> replaceNonAlnumRuns s = ''-''"
proof (induction s)
  case Nil then show ?case by simp
next
  case (Cons c cs)
  from Cons.prems have c: "\<not> isLowerAlnum c" and cs: "alnumRuns cs = []"
    by (auto split: if_splits)
  show ?case
  proof (cases cs)
    case Nil then show ?thesis using c by simp
  next
    case (Cons d ds)
    with cs have "\<not> isLowerAlnum d" by (auto split: if_splits)
    with Cons c have "replaceNonAlnumRuns (c # cs) = replaceNonAlnumRuns cs"
      by (simp add: replace_Cons_non del: replaceNonAlnumRuns.simps)
    with Cons.IH cs Cons show ?thesis by simp
  qed
qed



lemma replace_shape: "replaceNonAlnumRuns s = preH s @ coreS s @ postH s"
proof (induction s)
  case Nil
  show ?case by (simp add: coreS_def preH_def postH_def)
next
  case (Cons c cs)
  show ?case
  proof (cases "isLowerAlnum c")
    case True
    note c = this
    show ?thesis
    proof (cases "cs = []")
      case True
      then show ?thesis using c by (simp add: coreS_def preH_def postH_def)
    next
      case False
      note ne = this
      show ?thesis
      proof (cases "isLowerAlnum (hd cs)")
        case True
        have "coreS (c # cs) = c # coreS cs" using c ne True by (simp add: core_Cons_alnum)
        moreover have "preH (c # cs) = []" "preH cs = []" using c True by (simp_all add: preH_def)
        moreover have "postH (c # cs) = postH cs" using c ne alnumRuns_hd[OF ne True] by (simp add: postH_def)
        moreover have "replaceNonAlnumRuns (c # cs) = c # replaceNonAlnumRuns cs" using c by simp
        ultimately show ?thesis using Cons.IH by (simp del: replaceNonAlnumRuns.simps alnumRuns.simps)
      next
        case False
        have p: "preH (c # cs) = []" "preH cs = ''-''" using c ne False by (simp_all add: preH_def)
        have r: "replaceNonAlnumRuns (c # cs) = c # replaceNonAlnumRuns cs" using c by simp
        show ?thesis
        proof (cases "alnumRuns cs = []")
          case True
          then have "coreS (c # cs) = [c]" using c ne False by (simp add: core_Cons_alnum)
          moreover have "postH (c # cs) = ''-''" using c ne True
            by (simp add: postH_def alnumRuns_empty)
          moreover have "replaceNonAlnumRuns cs = ''-''" using True ne by (rule replace_alnum_only)
          ultimately show ?thesis using p r by (simp del: replaceNonAlnumRuns.simps alnumRuns.simps)
        next
          case F2: False
          then have "coreS (c # cs) = c # CHR ''-'' # coreS cs" using c ne False by (simp add: core_Cons_alnum)
          moreover have "postH (c # cs) = postH cs" using c ne F2 by (simp add: postH_def)
          ultimately show ?thesis using p r Cons.IH by (simp del: replaceNonAlnumRuns.simps alnumRuns.simps)
        qed
      qed
    qed
  next
    case False
    note c = this
    have co: "coreS (c # cs) = coreS cs" using c by (rule core_Cons_non)
    have p: "preH (c # cs) = ''-''" using c by (simp add: preH_def)
    show ?thesis
    proof (cases "cs = []")
      case True
      then show ?thesis using c by (simp add: coreS_def preH_def postH_def)
    next
      case False
      note ne = this
      have po: "postH (c # cs) = postH cs" using c ne by (simp add: postH_def)
      show ?thesis
      proof (cases "isLowerAlnum (hd cs)")
        case True
        then have "replaceNonAlnumRuns (c # cs) = CHR ''-'' # replaceNonAlnumRuns cs"
          using c by (simp add: replace_Cons_non del: replaceNonAlnumRuns.simps)
        moreover have "preH cs = []" using True by (simp add: preH_def)
        ultimately show ?thesis using co p po Cons.IH by (simp del: replaceNonAlnumRuns.simps alnumRuns.simps)
      next
        case False
        then have "replaceNonAlnumRuns (c # cs) = replaceNonAlnumRuns cs"
          using c ne by (simp add: replace_Cons_non del: replaceNonAlnumRuns.simps)
        moreover have "preH cs = ''-''" using False ne by (simp add: preH_def)
        ultimately show ?thesis using co p po Cons.IH by (simp del: replaceNonAlnumRuns.simps alnumRuns.simps)
      qed
    qed
  qed
qed


declare replaceNonAlnumRuns.simps(2) [simp del] alnumRuns.simps(2) [simp del]

lemma alnumRuns_Cons_non: "\<not> isLowerAlnum c \<Longrightarrow> alnumRuns (c # cs) = alnumRuns cs"
  by (simp add: alnumRuns.simps(2))

lemma alnumRuns_append_non:
  "\<forall>c\<in>set b. \<not> isLowerAlnum c \<Longrightarrow> alnumRuns (a @ b) = alnumRuns a"
proof (induction a)
  case Nil
  then show ?case by (simp add: alnumRuns_empty)
next
  case (Cons c cs)
  show ?case
  proof (cases "isLowerAlnum c")
    case False
    then show ?thesis using Cons by (simp add: alnumRuns_Cons_non)
  next
    case True
    have hd: "(cs @ b \<noteq> [] \<and> isLowerAlnum (hd (cs @ b))) = (cs \<noteq> [] \<and> isLowerAlnum (hd cs))"
      using Cons.prems by (cases cs; cases b) auto
    have "alnumRuns (c # (cs @ b)) = alnumRuns (c # cs)"
      unfolding alnumRuns_Cons_alnum[OF True] hd using Cons by (simp add: alnumRuns_empty)
    then show ?thesis by simp
  qed
qed

lemma alnumRuns_dropWhile:
  "(\<And>c. P c \<Longrightarrow> \<not> isLowerAlnum c) \<Longrightarrow> alnumRuns (dropWhile P s) = alnumRuns s"
  by (induction s) (auto simp: alnumRuns_Cons_non)

lemma alnumRuns_drop_end:
  assumes "\<And>c. P c \<Longrightarrow> \<not> isLowerAlnum c"
  shows "alnumRuns (rev (dropWhile P (rev s))) = alnumRuns s"
proof -
  have "s = rev (dropWhile P (rev s)) @ rev (takeWhile P (rev s))"
    by (metis rev_append rev_rev_ident takeWhile_dropWhile_id)
  moreover have "\<forall>c\<in>set (rev (takeWhile P (rev s))). \<not> isLowerAlnum c"
    using assms by (auto dest: set_takeWhileD)
  ultimately show ?thesis using alnumRuns_append_non by metis
qed

lemma alnumRuns_trim: "alnumRuns (trim s) = alnumRuns s"
  unfolding trim_def
  by (simp add: alnumRuns_drop_end alnumRuns_dropWhile ws_not_alnum)

lemma core_ends: "coreS s \<noteq> [] \<Longrightarrow> isLowerAlnum (hd (coreS s)) \<and> isLowerAlnum (last (coreS s))"
proof (induction s)
  case Nil
  then show ?case by (simp add: coreS_def)
next
  case (Cons c cs)
  show ?case
  proof (cases "isLowerAlnum c")
    case False
    then show ?thesis using Cons by (simp add: core_Cons_non)
  next
    case True
    show ?thesis using Cons True
      by (auto simp: core_Cons_alnum core_empty split: if_splits)
  qed
qed

lemma core_chars: "c \<in> set (coreS s) \<Longrightarrow> isSlugChar c"
proof (induction s)
  case Nil
  then show ?case by (simp add: coreS_def)
next
  case (Cons d ds)
  show ?case
  proof (cases "isLowerAlnum d")
    case False
    then show ?thesis using Cons by (simp add: core_Cons_non)
  next
    case True
    show ?thesis using Cons True
      by (auto simp: core_Cons_alnum isSlugChar_def isHyphen_def split: if_splits)
  qed
qed

lemma core_no_double: "\<not> sublist ''--'' (coreS s)"
proof (induction s)
  case Nil
  then show ?case by (simp add: coreS_def)
next
  case (Cons d ds)
  show ?case
  proof (cases "isLowerAlnum d")
    case False
    then show ?thesis using Cons by (simp add: core_Cons_non)
  next
    case True
    then have d: "d \<noteq> CHR ''-''" using hyphen_not_alnum by auto
    have h: "coreS ds \<noteq> [] \<Longrightarrow> hd (coreS ds) \<noteq> CHR ''-''"
      using core_ends[of ds] hyphen_not_alnum by auto
    have e: "alnumRuns ds \<noteq> [] \<Longrightarrow> coreS ds \<noteq> []" by (simp add: core_empty)
    have p1: "\<And>xs. prefix ''-'' xs \<longleftrightarrow> xs \<noteq> [] \<and> hd xs = CHR ''-''"
      by (case_tac xs) auto
    show ?thesis using Cons.IH d h e
      by (auto simp: core_Cons_alnum[OF True] sublist_Cons_right p1)
  qed
qed

lemma strip_core:
  assumes "x = [] \<or> (\<not> isHyphen (hd x) \<and> \<not> isHyphen (last x))"
    and "p = [] \<or> p = ''-''" and "q = [] \<or> q = ''-''"
  shows "stripHyphens (p @ x @ q) = x"
proof (cases "x = []")
  case True
  then show ?thesis using assms by (auto simp: stripHyphens_def isHyphen_def)
next
  case False
  then obtain a as where x: "x = a # as" by (cases x) auto
  have "dropWhile isHyphen (p @ x @ q) = x @ q"
    using assms x by (auto simp: isHyphen_def)
  moreover have "dropWhile isHyphen (rev (x @ q)) = rev x"
    using assms False by (cases "rev x") (auto simp: isHyphen_def last_rev hd_rev)
  ultimately show ?thesis by (simp add: stripHyphens_def)
qed

lemma generateSlug_core: "generateSlug v = coreS (toLowerCase v)"
proof -
  let ?t = "trim (toLowerCase v)"
  have c: "coreS ?t = coreS (toLowerCase v)" by (simp add: coreS_def alnumRuns_trim)
  have "coreS ?t = [] \<or> (\<not> isHyphen (hd (coreS ?t)) \<and> \<not> isHyphen (last (coreS ?t)))"
    using core_ends[of ?t] hyphen_not_alnum by (auto simp: isHyphen_def)
  then have "stripHyphens (preH ?t @ coreS ?t @ postH ?t) = coreS ?t"
    by (rule strip_core) (simp_all add: preH_def postH_def)
  then show ?thesis by (simp add: generateSlug_def replace_shape c)
qed

lemma lower_slugChar: "isSlugChar c \<Longrightarrow> lowerChar c = c"
  by (auto simp: isSlugChar_def isLowerAlnum_def isDigit_def isHyphen_def lowerChar_def code_def)


text \<open>
  Claim C1. For every title, \<open>generateSlug\<close> returns the maximal alphanumeric runs of the
  lowercased title joined by single hyphens: every maximal run of other characters
  between two of them has become one hyphen, and the runs at both ends are gone. The slug
  contains only characters of \<open>[a-z0-9-]\<close>, is lowercase, neither starts nor ends with a
  hyphen, and has no two hyphens in a row. The empty title gives the empty slug. The
  function is total: no input raises an error.
\<close>

theorem generateSlug_contract:
  "generateSlug v = slugSpec v
   \<and> list_all isSlugChar (generateSlug v)
   \<and> toLowerCase (generateSlug v) = generateSlug v
   \<and> \<not> prefix ''-'' (generateSlug v)
   \<and> \<not> suffix ''-'' (generateSlug v)
   \<and> \<not> sublist ''--'' (generateSlug v)
   \<and> generateSlug [] = []"
proof -
  let ?s = "generateSlug v"
  have core: "?s = coreS (toLowerCase v)" by (rule generateSlug_core)
  have spec: "?s = slugSpec v" by (simp add: core coreS_def slugSpec_def)
  have chars: "list_all isSlugChar ?s"
    unfolding core by (simp add: list_all_iff core_chars)
  have lower: "toLowerCase ?s = ?s"
    using chars by (simp add: toLowerCase_def list_all_iff map_idI lower_slugChar)
  have ends: "?s = [] \<or> (hd ?s \<noteq> CHR ''-'' \<and> last ?s \<noteq> CHR ''-'')"
    unfolding core using core_ends[of "toLowerCase v"] hyphen_not_alnum by auto
  have pre: "\<not> prefix ''-'' ?s"
    using ends by (cases ?s) auto
  have suf: "\<not> suffix ''-'' ?s"
    using ends by (auto simp: suffix_def)
  have dbl: "\<not> sublist ''--'' ?s"
    unfolding core by (rule core_no_double)
  have emp: "generateSlug [] = []"
    by (simp add: generateSlug_core toLowerCase_def coreS_def)
  show ?thesis using spec chars lower pre suf dbl emp by blast
qed

theorem generateSlug_contract_witness:
  "generateSlug ''  Hello,  World!! '' = ''hello-world''
   \<and> slugSpec ''  Hello,  World!! '' = ''hello-world''
   \<and> \<not> prefix ''-'' (generateSlug ''  Hello,  World!! '')"
proof -
  have e: "slugSpec ''  Hello,  World!! '' = ''hello-world''" by code_simp
  show ?thesis using generateSlug_contract [of "''  Hello,  World!! ''"] e by simp
qed

section \<open>Saving Bookings and Events\<close>

lemma code_lowerChar:
  "code (lowerChar c) =
     (if (65 \<le> code c \<and> code c \<le> 90) \<or> (192 \<le> code c \<and> code c \<le> 222 \<and> code c \<noteq> 215)
      then code c + 32 else code c)"
  by (auto simp: lowerChar_def code_def)

lemma ws_lowerChar: "isWhiteSpace (lowerChar c) = isWhiteSpace c"
  unfolding isWhiteSpace_def code_lowerChar by auto

lemma toLowerCase_dropWhile:
  "toLowerCase (dropWhile isWhiteSpace s) = dropWhile isWhiteSpace (toLowerCase s)"
  by (induction s) (auto simp: toLowerCase_def ws_lowerChar)

lemma toLowerCase_rev: "toLowerCase (rev s) = rev (toLowerCase s)"
  by (simp add: toLowerCase_def rev_map)

lemma toLowerCase_trim: "toLowerCase (trim s) = trim (toLowerCase s)"
  by (simp add: trim_def toLowerCase_rev toLowerCase_dropWhile)

lemma trim_id: "s = [] \<or> (\<not> isWhiteSpace (hd s) \<and> \<not> isWhiteSpace (last s)) \<Longrightarrow> trim s = s"
proof (cases s)
  case Nil
  then show ?thesis by (simp add: trim_def)
next
  case (Cons a as)
  assume "s = [] \<or> (\<not> isWhiteSpace (hd s) \<and> \<not> isWhiteSpace (last s))"
  with Cons have h: "\<not> isWhiteSpace a" and l: "\<not> isWhiteSpace (last s)" by auto
  have "dropWhile isWhiteSpace s = s" using Cons h by simp
  moreover have "dropWhile isWhiteSpace (rev s) = rev s"
    using Cons l by (simp add: dropWhile_eq_self_iff hd_rev del: rev.simps)
  ultimately show ?thesis by (simp add: trim_def)
qed

lemma trim_no_ws: "\<forall>c\<in>set s. \<not> isWhiteSpace c \<Longrightarrow> trim s = s"
  by (rule trim_id) (cases s, auto)

lemma slugChar_not_ws: "isSlugChar c \<Longrightarrow> \<not> isWhiteSpace c"
  by (auto simp: isSlugChar_def isLowerAlnum_def isDigit_def isHyphen_def isWhiteSpace_def code_def)

lemma trim_generateSlug: "trim (generateSlug s) = generateSlug s"
  by (rule trim_no_ws) (auto simp: generateSlug_core dest: core_chars slugChar_not_ws)

lemma generateSlug_trim: "generateSlug (trim s) = generateSlug s"
  by (simp add: generateSlug_core toLowerCase_trim coreS_def alnumRuns_trim)

lemma saveBooking_cases:
  "saveBooking db b =
     (let c = castBooking b in
      if validateBooking c \<noteq> [] then (Inl (ValidationError (validateBooking c)), db)
      else if \<not> eventExists db (eventId b)
        then (Inl ReferencedEventMissing, db\<lparr>oplog := oplog db @ [ExistsEvent (eventId b)]\<rparr>)
      else (Inr c, db\<lparr>bookings := bookings db @ [c],
                       oplog := oplog db @ [ExistsEvent (eventId b), InsertBooking (bookingDocId b)]\<rparr>))"
  by (simp add: saveBooking_def bookingPreSave_def castBooking_def Let_def)

text \<open>
  Claim C6. Saving a Booking whose \<open>eventId\<close> matches no Event in the collection at the
  moment of the save fails and stores nothing; when the document passes validation, the
  error is the hook's "Referenced event does not exist". When the Event exists and the
  document passes validation, the save succeeds and stores the Booking. The hook reads
  the Event collection once, and the read comes before the write.
\<close>

theorem saveBooking_referential_integrity:
  "(\<not> eventExists db (eventId b) \<longrightarrow>
      (\<exists>e. fst (saveBooking db b) = Inl e)
      \<and> bookings (snd (saveBooking db b)) = bookings db
      \<and> (validateBooking (castBooking b) = [] \<longrightarrow>
           fst (saveBooking db b) = Inl ReferencedEventMissing))
   \<and> (eventExists db (eventId b) \<and> validateBooking (castBooking b) = [] \<longrightarrow>
        fst (saveBooking db b) = Inr (castBooking b)
        \<and> bookings (snd (saveBooking db b)) = bookings db @ [castBooking b])
   \<and> (validateBooking (castBooking b) = [] \<longrightarrow>
        oplog (snd (saveBooking db b)) =
          oplog db @ ExistsEvent (eventId b) #
            (if eventExists db (eventId b) then [InsertBooking (bookingDocId b)] else []))"
  by (simp add: saveBooking_cases Let_def)

lemma sample_saved:
  "saveEvent utcHost emptyDb (sampleEvent ''Hello, World!'' 101) =
     (Inr ((sampleEvent ''Hello, World!'' 101)\<lparr>slug := ''hello-world'', time := ''09:30''\<rparr>),
      \<lparr>events = [(sampleEvent ''Hello, World!'' 101)\<lparr>slug := ''hello-world'', time := ''09:30''\<rparr>],
       bookings = [], oplog = [InsertEvent 101]\<rparr>)"
  by code_simp


lemma savedDb_events:
  "events savedDb = [(sampleEvent ''Hello, World!'' 101)\<lparr>slug := ''hello-world'', time := ''09:30''\<rparr>]"
  "bookings savedDb = []" "oplog savedDb = [InsertEvent 101]"
  by (simp_all add: savedDb_def sample_saved)

lemma savedDb_exists: "eventExists savedDb (Some 101)" "\<not> eventExists savedDb (Some 102)"
  by (simp_all add: eventExists_def savedDb_events sampleEvent_def)

lemma sampleBooking_valid: "validateBooking (castBooking (sampleBooking i ''User@Example.com'')) = []"
  by code_simp

lemma sampleBooking_cast:
  "castBooking (sampleBooking i ''User@Example.com'') = sampleBooking i ''user@example.com''"
  by code_simp

theorem saveBooking_referential_integrity_witness:
  "eventExists savedDb (Some 101)
   \<and> validateBooking (castBooking (sampleBooking 101 ''User@Example.com'')) = []
   \<and> fst (saveBooking savedDb (sampleBooking 101 ''User@Example.com'')) = Inr (sampleBooking 101 ''user@example.com'')
   \<and> bookings (snd (saveBooking savedDb (sampleBooking 101 ''User@Example.com''))) = [sampleBooking 101 ''user@example.com'']
   \<and> oplog (snd (saveBooking savedDb (sampleBooking 101 ''User@Example.com''))) =
        [InsertEvent 101, ExistsEvent (Some 101), InsertBooking 7]
   \<and> \<not> eventExists savedDb (Some 102)
   \<and> fst (saveBooking savedDb (sampleBooking 102 ''User@Example.com'')) = Inl ReferencedEventMissing
   \<and> bookings (snd (saveBooking savedDb (sampleBooking 102 ''User@Example.com''))) = []
   \<and> oplog (snd (saveBooking savedDb (sampleBooking 102 ''User@Example.com''))) =
        [InsertEvent 101, ExistsEvent (Some 102)]"
  using saveBooking_referential_integrity [of savedDb "sampleBooking 101 ''User@Example.com''"]
    saveBooking_referential_integrity [of savedDb "sampleBooking 102 ''User@Example.com''"]
    savedDb_exists sampleBooking_valid sampleBooking_cast savedDb_events
  by (simp add: sampleBooking_def)

text \<open>What \<open>EMAIL_RE\<close> accepts: a local part, \<open>@\<close>, a domain, a dot and a last label, each
  non-empty and free of white space and \<open>@\<close> (the domain may itself contain dots).\<close>

lemma in_repeats:
  "(r, g') \<in> set (repeats P lo hi (s, g)) \<longleftrightarrow>
     g' = g \<and> (\<exists>k. lo \<le> k \<and> k \<le> min hi (length (takeWhile P s)) \<and> r = drop k s)"
proof -
  let ?n = "min hi (length (takeWhile P s))"
  have "set (repeats P lo hi (s, g)) = (\<lambda>k. (drop k s, g)) ` set (rev [lo..<Suc ?n])"
    by (simp only: repeats_def Let_def set_map fst_conv snd_conv)
  also have "set (rev [lo..<Suc ?n]) = {lo..?n}"
    by (simp only: set_rev set_upt atLeastLessThanSuc_atLeastAtMost)
  finally have "set (repeats P lo hi (s, g)) = (\<lambda>k. (drop k s, g)) ` {lo..?n}" .
  then show ?thesis by auto
qed

lemma take_takeWhile_all:
  assumes "k \<le> length (takeWhile P s)"
  shows "list_all P (take k s)"
proof -
  have "take k (takeWhile P s) = take k (take (length (takeWhile P s)) s)"
    using takeWhile_eq_take[of P s] by simp
  also have "\<dots> = take k s" using assms by (simp add: min_def)
  finally have "set (take k s) \<subseteq> set (takeWhile P s)"
    using set_take_subset[of k "takeWhile P s"] by simp
  then show ?thesis by (auto simp: list_all_iff dest: set_takeWhileD)
qed

lemma in_Plus:
  "(r, g') \<in> set (rxm (Plus P) (s, g)) \<longleftrightarrow>
     g' = g \<and> (\<exists>p. p \<noteq> [] \<and> list_all P p \<and> s = p @ r)"
proof
  assume "(r, g') \<in> set (rxm (Plus P) (s, g))"
  then obtain k where g: "g' = g" and k: "1 \<le> k" "k \<le> length (takeWhile P s)" and r: "r = drop k s"
    by (auto simp: in_repeats)
  have l: "k \<le> length s" using k(2) length_takeWhile_le[of P s] by linarith
  have "take k s \<noteq> []" using k(1) l by auto
  moreover have "list_all P (take k s)" using k(2) by (rule take_takeWhile_all)
  moreover have "s = take k s @ r" by (simp add: r)
  ultimately show "g' = g \<and> (\<exists>p. p \<noteq> [] \<and> list_all P p \<and> s = p @ r)" using g by blast
next
  assume "g' = g \<and> (\<exists>p. p \<noteq> [] \<and> list_all P p \<and> s = p @ r)"
  then obtain p where g: "g' = g" and p: "p \<noteq> []" "list_all P p" "s = p @ r" by blast
  have "takeWhile P s = p @ takeWhile P r" using p(2,3) by (simp add: list_all_iff)
  then have "length p \<le> length (takeWhile P s)" by simp
  moreover have "1 \<le> length p" using p(1) by (cases p) auto
  moreover have "r = drop (length p) s" using p(3) by simp
  moreover have "length (takeWhile P s) \<le> length s" by (rule length_takeWhile_le)
  ultimately show "(r, g') \<in> set (rxm (Plus P) (s, g))"
    using g by (auto simp: in_repeats)
qed

lemma in_Chr: "(r, g') \<in> set (rxm (Chr c) (s, g)) \<longleftrightarrow> g' = g \<and> s = c # r"
  by (cases s) auto

lemma in_Seq:
  "st' \<in> set (rxm (Seq a b) st) \<longleftrightarrow> (\<exists>st1 \<in> set (rxm a st). st' \<in> set (rxm b st1))"
  by auto

lemma rxTest_iff: "rxTest r s \<longleftrightarrow> (\<exists>g. ([], g) \<in> set (rxm r (s, [])))"
proof -
  have "rxTest r s \<longleftrightarrow> filter (\<lambda>st. fst st = []) (rxm r (s, [])) \<noteq> []"
    by (simp add: rxTest_def rxMatch_def split: list.splits)
  also have "\<dots> \<longleftrightarrow> (\<exists>st \<in> set (rxm r (s, [])). fst st = [])"
    by (simp add: filter_empty_conv)
  also have "\<dots> \<longleftrightarrow> (\<exists>g. ([], g) \<in> set (rxm r (s, [])))"
    by force
  finally show ?thesis .
qed

lemma EMAIL_RE_shape:
  "rxTest EMAIL_RE x \<longleftrightarrow>
     (\<exists>l d t. x = l @ ''@'' @ d @ ''.'' @ t \<and> l \<noteq> [] \<and> d \<noteq> [] \<and> t \<noteq> [] \<and>
        list_all notSpaceAt l \<and> list_all notSpaceAt d \<and> list_all notSpaceAt t)"
proof
  assume "rxTest EMAIL_RE x"
  then obtain g where "([], g) \<in> set (rxm EMAIL_RE (x, []))" by (auto simp: rxTest_iff)
  then obtain r1 g1 r2 g2 r3 g3 r4 g4 where
    a: "(r1, g1) \<in> set (rxm (Plus notSpaceAt) (x, []))"
    and b: "(r2, g2) \<in> set (rxm (Chr CHR ''@'') (r1, g1))"
    and c: "(r3, g3) \<in> set (rxm (Plus notSpaceAt) (r2, g2))"
    and d: "(r4, g4) \<in> set (rxm (Chr CHR ''.'') (r3, g3))"
    and e: "([], g) \<in> set (rxm (Plus notSpaceAt) (r4, g4))"
    unfolding EMAIL_RE_def in_Seq by (metis prod.collapse)
  from a obtain l where l: "l \<noteq> []" "list_all notSpaceAt l" "x = l @ r1"
    unfolding in_Plus by blast
  from b have r1: "r1 = CHR ''@'' # r2" unfolding in_Chr by blast
  from c obtain dm where dm: "dm \<noteq> []" "list_all notSpaceAt dm" "r2 = dm @ r3"
    unfolding in_Plus by blast
  from d have r3: "r3 = CHR ''.'' # r4" unfolding in_Chr by blast
  from e obtain t where t: "t \<noteq> []" "list_all notSpaceAt t" "r4 = t @ []"
    unfolding in_Plus by blast
  have "x = l @ ''@'' @ dm @ ''.'' @ t" using l(3) r1 dm(3) r3 t(3) by simp
  then show "\<exists>l d t. x = l @ ''@'' @ d @ ''.'' @ t \<and> l \<noteq> [] \<and> d \<noteq> [] \<and> t \<noteq> [] \<and>
        list_all notSpaceAt l \<and> list_all notSpaceAt d \<and> list_all notSpaceAt t"
    using l dm t by blast
next
  assume "\<exists>l d t. x = l @ ''@'' @ d @ ''.'' @ t \<and> l \<noteq> [] \<and> d \<noteq> [] \<and> t \<noteq> [] \<and>
        list_all notSpaceAt l \<and> list_all notSpaceAt d \<and> list_all notSpaceAt t"
  then obtain l d t where x: "x = l @ ''@'' @ d @ ''.'' @ t"
    and ne: "l \<noteq> []" "d \<noteq> []" "t \<noteq> []"
    and al: "list_all notSpaceAt l" "list_all notSpaceAt d" "list_all notSpaceAt t" by blast
  have a: "(''@'' @ d @ ''.'' @ t, []) \<in> set (rxm (Plus notSpaceAt) (x, []))"
    unfolding in_Plus using ne(1) al(1) x by blast
  have b: "(d @ ''.'' @ t, []) \<in> set (rxm (Chr CHR ''@'') (''@'' @ d @ ''.'' @ t, []))"
    unfolding in_Chr by simp
  have c: "(''.'' @ t, []) \<in> set (rxm (Plus notSpaceAt) (d @ ''.'' @ t, []))"
    unfolding in_Plus using ne(2) al(2) by blast
  have d: "(t, []) \<in> set (rxm (Chr CHR ''.'') (''.'' @ t, []))"
    unfolding in_Chr by simp
  have e: "([], []) \<in> set (rxm (Plus notSpaceAt) (t, []))"
    unfolding in_Plus using ne(3) al(3) by auto
  have "([], []) \<in> set (rxm EMAIL_RE (x, []))"
    unfolding EMAIL_RE_def in_Seq using a b c d e by blast
  then show "rxTest EMAIL_RE x" by (auto simp: rxTest_iff)
qed

lemma EMAIL_RE_empty: "\<not> rxTest EMAIL_RE []"
  by code_simp

text \<open>White space around an email is removed by \<open>trim\<close>, and lowercasing neither adds nor
  removes white space.\<close>

lemma toLowerCase_append: "toLowerCase (x @ y) = toLowerCase x @ toLowerCase y"
  by (simp add: toLowerCase_def)

lemma toLowerCase_ws: "list_all isWhiteSpace (toLowerCase s) = list_all isWhiteSpace s"
  by (simp add: toLowerCase_def list_all_iff ws_lowerChar)

lemma toLowerCase_ends:
  "s \<noteq> [] \<Longrightarrow> hd (toLowerCase s) = lowerChar (hd s) \<and> last (toLowerCase s) = lowerChar (last s)"
  by (simp add: toLowerCase_def hd_map last_map)

lemma dropWhile_stop:
  "list_all P xs \<Longrightarrow> ys = [] \<or> \<not> P (hd ys) \<Longrightarrow> dropWhile P (xs @ ys) = ys"
  by (cases ys) (auto simp: list_all_iff)

lemma trim_strip:
  assumes "list_all isWhiteSpace a" "list_all isWhiteSpace c"
    and "e \<noteq> []" "\<not> isWhiteSpace (hd e)" "\<not> isWhiteSpace (last e)"
  shows "trim (a @ e @ c) = e"
proof -
  have 1: "dropWhile isWhiteSpace (a @ e @ c) = e @ c"
    using assms(1,3,4) by (intro dropWhile_stop) auto
  have "dropWhile isWhiteSpace (rev c @ rev e) = rev e"
    using assms(2,3,5) by (intro dropWhile_stop) (auto simp: hd_rev list_all_iff)
  then show ?thesis by (simp add: trim_def 1)
qed

lemma trim_blank:
  assumes "list_all isWhiteSpace s"
  shows "trim s = []"
proof -
  have d: "dropWhile isWhiteSpace s = []" using assms by (simp add: list_all_iff)
  show ?thesis unfolding trim_def d by simp
qed

lemma set_trim: "set (trim s) \<subseteq> set s"
  by (auto simp: trim_def dest!: set_dropWhileD)

lemma lowerChar_not_upper: "\<not> (65 \<le> code (lowerChar c) \<and> code (lowerChar c) \<le> 90)"
  unfolding code_lowerChar by auto

lemma notSpaceAt_not_ws: "notSpaceAt c \<Longrightarrow> \<not> isWhiteSpace c"
  by (simp add: notSpaceAt_def)

lemma EMAIL_RE_ends:
  assumes "rxTest EMAIL_RE x"
  shows "x \<noteq> [] \<and> \<not> isWhiteSpace (hd x) \<and> \<not> isWhiteSpace (last x)"
proof -
  from assms obtain l d t where x: "x = l @ ''@'' @ d @ ''.'' @ t"
    and ne: "l \<noteq> []" "t \<noteq> []" and al: "list_all notSpaceAt l" "list_all notSpaceAt t"
    unfolding EMAIL_RE_shape by blast
  have "hd x = hd l" using x ne(1) by simp
  moreover have "last x = last t" using x ne(2) by simp
  moreover have "notSpaceAt (hd l)" "notSpaceAt (last t)" using ne al by (simp_all add: list_all_iff)
  ultimately show ?thesis using x ne(1) by (auto dest: notSpaceAt_not_ws)
qed

lemma cast_email_strip:
  assumes "list_all isWhiteSpace a" "list_all isWhiteSpace c" "email b = a @ e @ c"
    and "e \<noteq> []" "\<not> isWhiteSpace (hd e)" "\<not> isWhiteSpace (last e)"
  shows "trim (toLowerCase (email b)) = toLowerCase e"
proof -
  have "toLowerCase (email b) = toLowerCase a @ toLowerCase e @ toLowerCase c"
    by (simp add: assms(3) toLowerCase_append)
  moreover have "toLowerCase e \<noteq> []" using assms(4) by (simp add: toLowerCase_def)
  moreover have "\<not> isWhiteSpace (hd (toLowerCase e))" "\<not> isWhiteSpace (last (toLowerCase e))"
    using assms(4-6) by (simp_all add: toLowerCase_ends ws_lowerChar)
  ultimately show ?thesis using assms(1,2) by (simp add: trim_strip toLowerCase_ws)
qed

lemma toLowerCase_ends_back:
  assumes "toLowerCase e \<noteq> []" "\<not> isWhiteSpace (hd (toLowerCase e))" "\<not> isWhiteSpace (last (toLowerCase e))"
  shows "e \<noteq> [] \<and> \<not> isWhiteSpace (hd e) \<and> \<not> isWhiteSpace (last e)"
proof -
  have e: "e \<noteq> []" using assms(1) by (auto simp: toLowerCase_def)
  then show ?thesis using assms(2,3) by (simp add: toLowerCase_ends ws_lowerChar)
qed

text \<open>
  Claim C8. \<open>EMAIL_RE\<close> accepts exactly the strings \<open>local@domain.tld\<close>: three non-empty parts
  free of white space and \<open>@\<close>, joined by \<open>@\<close> and a dot; \<open>user@example\<close>, \<open>user@.com\<close>
  and \<open>user name@example.com\<close> are refused. A Booking whose email is white space, a core
  and white space again is validated on the lowercased core alone: when the core matches
  and the Event exists, the save succeeds and stores the lowercased core, without the
  surrounding white space; when the core does not match, as for \<open>not-an-email\<close>, the save
  fails with the error of the validator of \<open>email\<close> and nothing is stored. An email of
  white space only is refused as missing. Every stored email matches \<open>EMAIL_RE\<close>, starts and
  ends with a character that is not white space, has no letter \<open>A\<close> to \<open>Z\<close> and is no longer
  than the one submitted. The two setters commute, and \<open>User@Example.com\<close>, padded or not,
  is stored as \<open>user@example.com\<close>.
\<close>

theorem booking_email_rule:
  "(trim (toLowerCase (email b)) \<noteq> [] \<and> \<not> rxTest EMAIL_RE (trim (toLowerCase (email b))) \<longrightarrow>
      (\<exists>errs. saveBooking db b = (Inl (ValidationError errs), db) \<and> (''email'', UserDefined) \<in> set errs))
   \<and> (rxTest EMAIL_RE (trim (toLowerCase (email b))) \<and> eventExists db (eventId b) \<longrightarrow>
        fst (saveBooking db b) = Inr (b\<lparr>email := trim (toLowerCase (email b))\<rparr>)
        \<and> bookings (snd (saveBooking db b)) = bookings db @ [b\<lparr>email := trim (toLowerCase (email b))\<rparr>])
   \<and> trim (toLowerCase (email b)) = toLowerCase (trim (email b))
   \<and> \<not> rxTest EMAIL_RE (trim (toLowerCase ''not-an-email''))
   \<and> trim (toLowerCase ''User@Example.com'') = ''user@example.com''
   \<and> rxTest EMAIL_RE ''user@example.com''
   \<and> (rxTest EMAIL_RE x \<longleftrightarrow>
        (\<exists>l d t. x = l @ ''@'' @ d @ ''.'' @ t \<and> l \<noteq> [] \<and> d \<noteq> [] \<and> t \<noteq> []
           \<and> list_all notSpaceAt l \<and> list_all notSpaceAt d \<and> list_all notSpaceAt t))
   \<and> (list_all isWhiteSpace a \<and> list_all isWhiteSpace c \<and> email b = a @ e @ c
        \<and> rxTest EMAIL_RE (toLowerCase e) \<and> eventExists db (eventId b) \<longrightarrow>
        fst (saveBooking db b) = Inr (b\<lparr>email := toLowerCase e\<rparr>)
        \<and> bookings (snd (saveBooking db b)) = bookings db @ [b\<lparr>email := toLowerCase e\<rparr>])
   \<and> (list_all isWhiteSpace a \<and> list_all isWhiteSpace c \<and> email b = a @ e @ c
        \<and> e \<noteq> [] \<and> \<not> isWhiteSpace (hd e) \<and> \<not> isWhiteSpace (last e)
        \<and> \<not> rxTest EMAIL_RE (toLowerCase e) \<longrightarrow>
        (\<exists>errs. saveBooking db b = (Inl (ValidationError errs), db) \<and> (''email'', UserDefined) \<in> set errs))
   \<and> (list_all isWhiteSpace (email b) \<longrightarrow>
        (\<exists>errs. saveBooking db b = (Inl (ValidationError errs), db) \<and> (''email'', Required) \<in> set errs))
   \<and> (fst (saveBooking db b) = Inr s \<longrightarrow>
        rxTest EMAIL_RE (email s) \<and> email s \<noteq> []
        \<and> \<not> isWhiteSpace (hd (email s)) \<and> \<not> isWhiteSpace (last (email s))
        \<and> list_all (\<lambda>k. \<not> (65 \<le> code k \<and> code k \<le> 90)) (email s)
        \<and> length (email s) \<le> length (email b))
   \<and> trim (toLowerCase ''  User@Example.com '') = ''user@example.com''
   \<and> \<not> rxTest EMAIL_RE ''user@example''
   \<and> \<not> rxTest EMAIL_RE ''user@.com''
   \<and> \<not> rxTest EMAIL_RE ''user name@example.com''"
proof -
  let ?e = "trim (toLowerCase (email b))"
  have bad: "?e \<noteq> [] \<and> \<not> rxTest EMAIL_RE ?e \<longrightarrow>
      (\<exists>errs. saveBooking db b = (Inl (ValidationError errs), db) \<and> (''email'', UserDefined) \<in> set errs)"
    by (auto simp: saveBooking_cases Let_def validateBooking_def castBooking_def)
  have ex: "eventExists db (eventId b) \<Longrightarrow> eventId b \<noteq> None"
    by (auto simp: eventExists_def split: option.splits)
  have good: "rxTest EMAIL_RE ?e \<and> eventExists db (eventId b) \<longrightarrow>
        fst (saveBooking db b) = Inr (b\<lparr>email := ?e\<rparr>)
        \<and> bookings (snd (saveBooking db b)) = bookings db @ [b\<lparr>email := ?e\<rparr>]"
    using EMAIL_RE_empty ex
    by (auto simp: saveBooking_cases Let_def validateBooking_def castBooking_def)
  have comm: "?e = toLowerCase (trim (email b))" by (simp add: toLowerCase_trim)
  have c1: "\<not> rxTest EMAIL_RE (trim (toLowerCase ''not-an-email''))" by code_simp
  have c2: "trim (toLowerCase ''User@Example.com'') = ''user@example.com''" by code_simp
  have c3: "rxTest EMAIL_RE ''user@example.com''" by code_simp
  have shape: "rxTest EMAIL_RE x \<longleftrightarrow>
        (\<exists>l d t. x = l @ ''@'' @ d @ ''.'' @ t \<and> l \<noteq> [] \<and> d \<noteq> [] \<and> t \<noteq> []
           \<and> list_all notSpaceAt l \<and> list_all notSpaceAt d \<and> list_all notSpaceAt t)"
    by (rule EMAIL_RE_shape)
  have padded_good: "list_all isWhiteSpace a \<and> list_all isWhiteSpace c \<and> email b = a @ e @ c
        \<and> rxTest EMAIL_RE (toLowerCase e) \<and> eventExists db (eventId b) \<longrightarrow>
        fst (saveBooking db b) = Inr (b\<lparr>email := toLowerCase e\<rparr>)
        \<and> bookings (snd (saveBooking db b)) = bookings db @ [b\<lparr>email := toLowerCase e\<rparr>]"
  proof (intro impI)
    assume h: "list_all isWhiteSpace a \<and> list_all isWhiteSpace c \<and> email b = a @ e @ c
        \<and> rxTest EMAIL_RE (toLowerCase e) \<and> eventExists db (eventId b)"
    then have "e \<noteq> [] \<and> \<not> isWhiteSpace (hd e) \<and> \<not> isWhiteSpace (last e)"
      using EMAIL_RE_ends [of "toLowerCase e"] toLowerCase_ends_back [of e] by blast
    then have "?e = toLowerCase e" using h cast_email_strip [of a c b e] by blast
    then show "fst (saveBooking db b) = Inr (b\<lparr>email := toLowerCase e\<rparr>)
        \<and> bookings (snd (saveBooking db b)) = bookings db @ [b\<lparr>email := toLowerCase e\<rparr>]"
      using good h by simp
  qed
  have padded_bad: "list_all isWhiteSpace a \<and> list_all isWhiteSpace c \<and> email b = a @ e @ c
        \<and> e \<noteq> [] \<and> \<not> isWhiteSpace (hd e) \<and> \<not> isWhiteSpace (last e)
        \<and> \<not> rxTest EMAIL_RE (toLowerCase e) \<longrightarrow>
        (\<exists>errs. saveBooking db b = (Inl (ValidationError errs), db) \<and> (''email'', UserDefined) \<in> set errs)"
  proof (intro impI)
    assume h: "list_all isWhiteSpace a \<and> list_all isWhiteSpace c \<and> email b = a @ e @ c
        \<and> e \<noteq> [] \<and> \<not> isWhiteSpace (hd e) \<and> \<not> isWhiteSpace (last e)
        \<and> \<not> rxTest EMAIL_RE (toLowerCase e)"
    then have eq: "?e = toLowerCase e" using cast_email_strip [of a c b e] by blast
    have "toLowerCase e \<noteq> []" using h by (simp add: toLowerCase_def)
    then show "\<exists>errs. saveBooking db b = (Inl (ValidationError errs), db) \<and> (''email'', UserDefined) \<in> set errs"
      using bad h eq by simp
  qed
  have blank: "list_all isWhiteSpace (email b) \<longrightarrow>
        (\<exists>errs. saveBooking db b = (Inl (ValidationError errs), db) \<and> (''email'', Required) \<in> set errs)"
  proof (intro impI)
    assume "list_all isWhiteSpace (email b)"
    then have "?e = []" by (simp add: trim_blank toLowerCase_ws)
    then show "\<exists>errs. saveBooking db b = (Inl (ValidationError errs), db) \<and> (''email'', Required) \<in> set errs"
      by (auto simp: saveBooking_cases Let_def validateBooking_def castBooking_def)
  qed
  have stored: "fst (saveBooking db b) = Inr s \<longrightarrow>
        rxTest EMAIL_RE (email s) \<and> email s \<noteq> []
        \<and> \<not> isWhiteSpace (hd (email s)) \<and> \<not> isWhiteSpace (last (email s))
        \<and> list_all (\<lambda>k. \<not> (65 \<le> code k \<and> code k \<le> 90)) (email s)
        \<and> length (email s) \<le> length (email b)"
  proof (intro impI)
    assume h: "fst (saveBooking db b) = Inr s"
    then have s: "s = castBooking b" and v: "validateBooking (castBooking b) = []"
      by (auto simp: saveBooking_cases Let_def split: if_splits)
    have es: "email s = ?e" by (simp add: s castBooking_def)
    have rx: "rxTest EMAIL_RE (email s)"
      using v unfolding es [symmetric] s validateBooking_def by (auto split: if_splits)
    have "set ?e \<subseteq> set (toLowerCase (email b))" by (rule set_trim)
    then have low: "list_all (\<lambda>k. \<not> (65 \<le> code k \<and> code k \<le> 90)) (email s)"
      unfolding es list_all_iff toLowerCase_def using lowerChar_not_upper by auto
    have "length (dropWhile isWhiteSpace (rev (dropWhile isWhiteSpace (toLowerCase (email b)))))
            \<le> length (rev (dropWhile isWhiteSpace (toLowerCase (email b))))"
      by (rule length_dropWhile_le)
    also have "\<dots> \<le> length (toLowerCase (email b))"
      by (simp add: length_dropWhile_le)
    finally have "length ?e \<le> length (toLowerCase (email b))"
      by (simp add: trim_def)
    then have len: "length (email s) \<le> length (email b)" by (simp add: es toLowerCase_def)
    show "rxTest EMAIL_RE (email s) \<and> email s \<noteq> []
        \<and> \<not> isWhiteSpace (hd (email s)) \<and> \<not> isWhiteSpace (last (email s))
        \<and> list_all (\<lambda>k. \<not> (65 \<le> code k \<and> code k \<le> 90)) (email s)
        \<and> length (email s) \<le> length (email b)"
      using rx EMAIL_RE_ends [of "email s"] low len by blast
  qed
  have c4: "trim (toLowerCase ''  User@Example.com '') = ''user@example.com''" by code_simp
  have c5: "\<not> rxTest EMAIL_RE ''user@example''" by code_simp
  have c6: "\<not> rxTest EMAIL_RE ''user@.com''" by code_simp
  have c7: "\<not> rxTest EMAIL_RE ''user name@example.com''" by code_simp
  show ?thesis
    apply (intro conjI)
    apply (rule bad)
    apply (rule good)
    apply (rule comm)
    apply (rule c1)
    apply (rule c2)
    apply (rule c3)
    apply (rule shape)
    apply (rule padded_good)
    apply (rule padded_bad)
    apply (rule blank)
    apply (rule stored)
    apply (rule c4)
    apply (rule c5)
    apply (rule c6)
    apply (rule c7)
    done
qed


theorem booking_email_rule_witness:
  "rxTest EMAIL_RE (trim (toLowerCase ''User@Example.com'')) \<and> eventExists savedDb (Some 101)
   \<and> fst (saveBooking savedDb (sampleBooking 101 ''User@Example.com'')) = Inr (sampleBooking 101 ''user@example.com'')
   \<and> trim (toLowerCase ''not-an-email'') \<noteq> [] \<and> \<not> rxTest EMAIL_RE (trim (toLowerCase ''not-an-email''))
   \<and> (\<exists>errs. saveBooking savedDb (sampleBooking 101 ''not-an-email'') = (Inl (ValidationError errs), savedDb)
        \<and> (''email'', UserDefined) \<in> set errs)
   \<and> list_all isWhiteSpace ''  '' \<and> list_all isWhiteSpace '' ''
   \<and> rxTest EMAIL_RE (toLowerCase ''User@Example.com'')
   \<and> fst (saveBooking savedDb (sampleBooking 101 ''  User@Example.com '')) = Inr (sampleBooking 101 ''user@example.com'')
   \<and> bookings (snd (saveBooking savedDb (sampleBooking 101 ''  User@Example.com ''))) = [sampleBooking 101 ''user@example.com'']
   \<and> \<not> isWhiteSpace (hd ''not-an-email'') \<and> \<not> isWhiteSpace (last ''not-an-email'')
   \<and> \<not> rxTest EMAIL_RE (toLowerCase ''not-an-email'')
   \<and> (\<exists>errs. saveBooking savedDb (sampleBooking 101 '' not-an-email  '') = (Inl (ValidationError errs), savedDb)
        \<and> (''email'', UserDefined) \<in> set errs)
   \<and> list_all isWhiteSpace ''   ''
   \<and> (\<exists>errs. saveBooking savedDb (sampleBooking 101 ''   '') = (Inl (ValidationError errs), savedDb)
        \<and> (''email'', Required) \<in> set errs)
   \<and> list_all (\<lambda>k. \<not> (65 \<le> code k \<and> code k \<le> 90)) ''user@example.com''
   \<and> \<not> isWhiteSpace (hd ''user@example.com'') \<and> \<not> isWhiteSpace (last ''user@example.com'')
   \<and> list_all notSpaceAt ''user'' \<and> list_all notSpaceAt ''example'' \<and> list_all notSpaceAt ''com''
   \<and> rxTest EMAIL_RE (''user'' @ ''@'' @ ''example'' @ ''.'' @ ''com'')"
proof -
  have a: "trim (toLowerCase ''User@Example.com'') = ''user@example.com''" by code_simp
  have b: "rxTest EMAIL_RE ''user@example.com''" by code_simp
  have c: "trim (toLowerCase ''not-an-email'') = ''not-an-email''" by code_simp
  have d: "\<not> rxTest EMAIL_RE ''not-an-email''" by code_simp
  have w: "list_all isWhiteSpace ''  ''" "list_all isWhiteSpace '' ''" "list_all isWhiteSpace ''   ''"
    by code_simp+
  have l1: "toLowerCase ''User@Example.com'' = ''user@example.com''" by code_simp
  have l2: "toLowerCase ''not-an-email'' = ''not-an-email''" by code_simp
  have n: "\<not> isWhiteSpace (hd ''not-an-email'')" "\<not> isWhiteSpace (last ''not-an-email'')"
    by code_simp+
  have p: "list_all notSpaceAt ''user''" "list_all notSpaceAt ''example''" "list_all notSpaceAt ''com''"
    by code_simp+
  note plain = booking_email_rule [where b = "sampleBooking 101 ''User@Example.com''" and db = savedDb
      and a = "[]" and c = "[]" and e = "''User@Example.com''" and s = "sampleBooking 101 ''user@example.com''"
      and x = "''user@example.com''"]
  note padded = booking_email_rule [where b = "sampleBooking 101 ''  User@Example.com ''" and db = savedDb
      and a = "''  ''" and c = "'' ''" and e = "''User@Example.com''"
      and s = "sampleBooking 101 ''user@example.com''" and x = "''user@example.com''"]
  note bad = booking_email_rule [where b = "sampleBooking 101 ''not-an-email''" and db = savedDb
      and a = "[]" and c = "[]" and e = "''not-an-email''"]
  note padbad = booking_email_rule [where b = "sampleBooking 101 '' not-an-email  ''" and db = savedDb
      and a = "'' ''" and c = "''  ''" and e = "''not-an-email''"]
  note blank = booking_email_rule [where b = "sampleBooking 101 ''   ''" and db = savedDb]
  have r1: "fst (saveBooking savedDb (sampleBooking 101 ''User@Example.com'')) = Inr (sampleBooking 101 ''user@example.com'')"
    using plain a b savedDb_exists by (simp add: sampleBooking_def)
  have r2: "\<exists>errs. saveBooking savedDb (sampleBooking 101 ''not-an-email'') = (Inl (ValidationError errs), savedDb)
        \<and> (''email'', UserDefined) \<in> set errs"
    using bad c d by (simp add: sampleBooking_def)
  have r3: "fst (saveBooking savedDb (sampleBooking 101 ''  User@Example.com '')) = Inr (sampleBooking 101 ''user@example.com'')
     \<and> bookings (snd (saveBooking savedDb (sampleBooking 101 ''  User@Example.com ''))) = [sampleBooking 101 ''user@example.com'']"
    using padded w l1 b savedDb_exists savedDb_events(2) by (simp add: sampleBooking_def)
  have r4: "\<exists>errs. saveBooking savedDb (sampleBooking 101 '' not-an-email  '') = (Inl (ValidationError errs), savedDb)
        \<and> (''email'', UserDefined) \<in> set errs"
    using padbad w l2 d n by (simp add: sampleBooking_def)
  have r5: "\<exists>errs. saveBooking savedDb (sampleBooking 101 ''   '') = (Inl (ValidationError errs), savedDb)
        \<and> (''email'', Required) \<in> set errs"
    using blank w by (simp add: sampleBooking_def)
  have r6: "list_all (\<lambda>k. \<not> (65 \<le> code k \<and> code k \<le> 90)) ''user@example.com''
     \<and> \<not> isWhiteSpace (hd ''user@example.com'') \<and> \<not> isWhiteSpace (last ''user@example.com'')"
    using plain r1 by (simp add: sampleBooking_def)
  have r7: "rxTest EMAIL_RE (''user'' @ ''@'' @ ''example'' @ ''.'' @ ''com'')"
    using b by simp
  show ?thesis
    using a b c d w l1 l2 n p r1 r2 r3 r4 r5 r6 r7 savedDb_exists(1) by simp
qed

lemma digitChar_code: "n < 10 \<Longrightarrow> code (digitChar n) = 48 + n"
  by (simp add: digitChar_def code_def)

lemma isDigit_digitChar: "n < 10 \<Longrightarrow> isDigit (digitChar n)"
  by (simp add: isDigit_def digitChar_code)

lemma String_digits: "list_all isDigit (String n)"
proof (induction n rule: String.induct)
  case (1 n)
  show ?case
  proof (cases "n < 10")
    case True
    then show ?thesis by (simp add: String.simps[of n] isDigit_digitChar)
  next
    case False
    then show ?thesis using 1 by (simp add: String.simps[of n] isDigit_digitChar)
  qed
qed

lemma isDigit_zero: "isDigit CHR ''0''"
  by (simp add: isDigit_def code_def)

lemma pad_digits: "list_all isDigit (pad k n)"
  using String_digits[of "nat n"] by (auto simp: pad_def padStart_def list_all_iff isDigit_zero)


lemma isoChar_not_ws: "isoChar c \<Longrightarrow> \<not> isWhiteSpace c"
  by (auto simp: isoChar_def isDigit_def isWhiteSpace_def code_def)

lemma pad_isoChar: "list_all isoChar (pad k n)"
  using pad_digits[of k n] by (simp add: list_all_iff isoChar_def)

lemma toISOString_isoChar: "list_all isoChar (toISOString t)"
  using pad_isoChar by (simp add: toISOString_def isoYearText_def isoChar_def)

lemma normalizeDate_isoChar: "normalizeDate h v = Inr r \<Longrightarrow> list_all isoChar r"
  using toISOString_isoChar
  by (auto simp: normalizeDate_def list_all_iff split: if_splits option.splits dest: in_set_takeD)

lemma normalizeTime_form:
  "normalizeTime h v = Inr r \<Longrightarrow> \<exists>hh mm. 0 \<le> hh \<and> hh \<le> 23 \<and> 0 \<le> mm \<and> mm \<le> 59 \<and> r = pad 2 hh @ '':'' @ pad 2 mm"
proof -
  assume a: "normalizeTime h v = Inr r"
  show ?thesis
  proof (cases "Date_parse h (''1970-01-01T'' @ trim v)")
    case (Some t)
    then have "r = pad 2 (HourFromTime t) @ '':'' @ pad 2 (MinFromTime t)"
      using a by (simp add: normalizeTime_def split: if_splits)
    moreover have "HourFromTime t < 24" "MinFromTime t < 60" "0 \<le> HourFromTime t" "0 \<le> MinFromTime t"
      by (simp_all add: HourFromTime_def MinFromTime_def)
    then have "0 \<le> HourFromTime t \<and> HourFromTime t \<le> 23 \<and> 0 \<le> MinFromTime t \<and> MinFromTime t \<le> 59"
      by linarith
    ultimately show ?thesis by blast
  next
    case None
    from a None obtain m where m: "rxMatch timeRe (trim v) = Some m"
      by (auto simp: normalizeTime_def Let_def split: if_splits option.splits)
    define hh where "hh = applyAmPm (capture m 3) (Number (case capture m 1 of None \<Rightarrow> [] | Some w \<Rightarrow> w))"
    define mm where "mm = (case capture m 2 of None \<Rightarrow> 0 | Some w \<Rightarrow> Number w)"
    have "\<not> (hh < 0 \<or> hh > 23 \<or> mm < 0 \<or> mm > 59) \<and> r = pad 2 hh @ '':'' @ pad 2 mm"
      using a None m unfolding hh_def mm_def
      by (simp add: normalizeTime_def Let_def split: if_splits)
    then show ?thesis by (intro exI[of _ hh] exI[of _ mm]) auto
  qed
qed

lemma normalizeTime_isoChar: "normalizeTime h v = Inr r \<Longrightarrow> list_all isoChar r"
  using pad_isoChar by (auto dest!: normalizeTime_form simp: isoChar_def)

lemma trim_isoChar: "list_all isoChar r \<Longrightarrow> trim r = r"
  by (rule trim_no_ws) (auto simp: list_all_iff dest: isoChar_not_ws)

lemma normalizeDate_trim: "normalizeDate h v = Inr r \<Longrightarrow> trim r = r"
  by (rule trim_isoChar) (rule normalizeDate_isoChar)

lemma normalizeTime_trim: "normalizeTime h v = Inr r \<Longrightarrow> trim r = r"
  by (rule trim_isoChar) (rule normalizeTime_isoChar)

lemma eventPreSave_slug:
  "slug (fst (eventPreSave h isModified d)) =
     (if isModified ''title'' \<or> slug d = [] then generateSlug (title d) else slug d)"
  by (auto simp: eventPreSave_def Let_def trim_generateSlug split: sum.splits)

text \<open>
  Claim C9. The pre-save hook of the Event schema assigns \<open>generateSlug\<close> of the current
  title to \<open>slug\<close> exactly when the title is modified or the slug is empty, and leaves
  the slug as it is otherwise. It replaces \<open>date\<close> by its normal form only when
  \<open>date\<close> is modified, and \<open>time\<close> only when \<open>time\<close> is modified (and the date step
  did not throw). No other field changes. The hook throws the error of the first
  normalizer that fails.
\<close>

theorem eventPreSave_frame:
  "slug (fst (eventPreSave h isModified d)) =
     (if isModified ''title'' \<or> slug d = [] then generateSlug (title d) else slug d)
   \<and> date (fst (eventPreSave h isModified d)) =
     (if isModified ''date'' then (case normalizeDate h (date d) of Inr v \<Rightarrow> v | Inl e \<Rightarrow> date d)
      else date d)
   \<and> time (fst (eventPreSave h isModified d)) =
     (if isModified ''time'' \<and> \<not> (isModified ''date'' \<and> isl (normalizeDate h (date d)))
      then (case normalizeTime h (time d) of Inr v \<Rightarrow> v | Inl e \<Rightarrow> time d)
      else time d)
   \<and> fst (eventPreSave h isModified d) =
       d\<lparr>slug := slug (fst (eventPreSave h isModified d)),
         date := date (fst (eventPreSave h isModified d)),
         time := time (fst (eventPreSave h isModified d))\<rparr>
   \<and> snd (eventPreSave h isModified d) =
     (if isModified ''date'' \<and> isl (normalizeDate h (date d))
      then Some (projl (normalizeDate h (date d)))
      else if isModified ''time'' \<and> isl (normalizeTime h (time d))
      then Some (projl (normalizeTime h (time d)))
      else None)"
proof -
  obtain d1 where d1: "d1 = (if isModified ''title'' \<or> slug d = []
                then d\<lparr>slug := trim (generateSlug (title d))\<rparr> else d)" by simp
  have f1: "date d1 = date d" "time d1 = time d" "title d1 = title d"
    "slug d1 = (if isModified ''title'' \<or> slug d = [] then generateSlug (title d) else slug d)"
    "d1 = d\<lparr>slug := slug d1\<rparr>"
    by (simp_all add: d1 trim_generateSlug)
  show ?thesis
  proof (cases "isModified ''date''")
    case False
    note nd = this
    show ?thesis
    proof (cases "isModified ''time''")
      case False
      then show ?thesis using nd f1 d1 by (simp add: eventPreSave_def)
    next
      case True
      show ?thesis
      proof (cases "normalizeTime h (time d)")
        case (Inl e)
        then show ?thesis using nd True f1 d1 by (simp add: eventPreSave_def)
      next
        case (Inr v)
        then show ?thesis using nd True f1 d1 normalizeTime_trim[OF Inr]
          by (simp add: eventPreSave_def)
      qed
    qed
  next
    case True
    note md = this
    show ?thesis
    proof (cases "normalizeDate h (date d)")
      case (Inl e)
      then show ?thesis using md f1 d1 by (simp add: eventPreSave_def)
    next
      case (Inr w)
      note dw = this normalizeDate_trim[OF this]
      show ?thesis
      proof (cases "isModified ''time''")
        case False
        then show ?thesis using md dw f1 d1 by (simp add: eventPreSave_def)
      next
        case True
        show ?thesis
        proof (cases "normalizeTime h (time d)")
          case (Inl e)
          then show ?thesis using md dw True f1 d1 by (simp add: eventPreSave_def)
        next
          case (Inr v)
          then show ?thesis using md dw True f1 d1 normalizeTime_trim[OF Inr]
            by (simp add: eventPreSave_def)
        qed
      qed
    qed
  qed
qed

theorem eventPreSave_frame_witness:
  "slug (fst (eventPreSave utcHost (\<lambda>p. p = ''time'') (sampleEvent ''Hello, World!'' 101))) = ''draft''
   \<and> time (fst (eventPreSave utcHost (\<lambda>p. p = ''time'') (sampleEvent ''Hello, World!'' 101))) = ''09:30''
   \<and> date (fst (eventPreSave utcHost (\<lambda>p. p = ''time'') (sampleEvent ''Hello, World!'' 101))) = ''2024-09-15''
   \<and> slug (fst (eventPreSave utcHost (\<lambda>p. p = ''title'') (sampleEvent ''Hello, World!'' 101))) = ''hello-world''
   \<and> time (fst (eventPreSave utcHost (\<lambda>p. p = ''title'') (sampleEvent ''Hello, World!'' 101))) = ''9:30 AM''"
proof -
  have a: "normalizeTime utcHost ''9:30 AM'' = Inr ''09:30''" by code_simp
  have b: "generateSlug ''Hello, World!'' = ''hello-world''" by code_simp
  show ?thesis
    using eventPreSave_frame [of utcHost "\<lambda>p. p = ''time''" "sampleEvent ''Hello, World!'' 101"]
      eventPreSave_frame [of utcHost "\<lambda>p. p = ''title''" "sampleEvent ''Hello, World!'' 101"] a b
    by (simp add: sampleEvent_def)
qed

lemma eventPipeline_slug:
  assumes "eventPipeline h e = Inr d"
  shows "slug d = generateSlug (title e)"
proof -
  obtain r where r: "r = eventPreSave h (\<lambda>path. True) (castEvent e)" by simp
  from assms have "d = fst r"
    unfolding eventPipeline_def Let_def r
    by (auto split: if_splits prod.splits option.splits)
  moreover have "slug (fst r) = generateSlug (title (castEvent e))"
    unfolding r by (simp add: eventPreSave_slug)
  moreover have "title (castEvent e) = trim (title e)" by (simp add: castEvent_def)
  ultimately show ?thesis by (simp add: generateSlug_trim)
qed

lemma insertEvent_cases:
  "insertEvent db d = (Inr d', db') \<Longrightarrow>
     d' = d \<and> \<not> list_ex (\<lambda>e. slug e = slug d) (events db) \<and> events db' = events db @ [d]"
  by (auto simp: insertEvent_def split: if_splits)

lemma saveEvent_Inr:
  "saveEvent h db e = (Inr d, db') \<Longrightarrow>
     eventPipeline h e = Inr d \<and> \<not> list_ex (\<lambda>x. slug x = slug d) (events db) \<and> events db' = events db @ [d]"
  by (auto simp: saveEvent_def split: sum.splits dest: insertEvent_cases)

text \<open>
  Claim C7, as the code has it. Once an Event is saved, saving a second Event whose title
  gives the same slug fails and leaves the database as it was. The uniqueness of slugs
  is enforced by the unique index of the Event collection alone: what the application
  does before the write (setters, validation, the pre-save hook) never looks at the
  stored Events, and when it accepts the second Event the insert is rejected with the
  duplicate-key error of the index. Saving keeps the slugs of the stored Events distinct.
\<close>

theorem event_slug_unique_index:
  assumes "saveEvent h db e1 = (Inr d1, db1)"
    and "generateSlug (title e2) = generateSlug (title e1)"
  shows "(\<exists>err. saveEvent h db1 e2 = (Inl err, db1))
    \<and> (\<forall>d2. eventPipeline h e2 = Inr d2 \<longrightarrow>
          slug d2 = slug d1 \<and> insertEvent db1 d2 = (Inl (DuplicateKey ''slug''), db1)
          \<and> saveEvent h db1 e2 = (Inl (DuplicateKey ''slug''), db1))
    \<and> (distinct (map slug (events db)) \<longrightarrow> distinct (map slug (events db1)))"
proof -
  from assms(1) have p1: "eventPipeline h e1 = Inr d1"
    and fresh: "\<not> list_ex (\<lambda>x. slug x = slug d1) (events db)"
    and ev: "events db1 = events db @ [d1]"
    by (auto dest: saveEvent_Inr)
  have s1: "slug d1 = generateSlug (title e1)" using p1 by (rule eventPipeline_slug)
  have dup: "\<And>d2. eventPipeline h e2 = Inr d2 \<Longrightarrow>
      slug d2 = slug d1 \<and> insertEvent db1 d2 = (Inl (DuplicateKey ''slug''), db1)"
    using s1 assms(2) ev by (auto simp: insertEvent_def list_ex_iff dest: eventPipeline_slug)
  have a: "\<exists>err. saveEvent h db1 e2 = (Inl err, db1)"
    using dup by (cases "eventPipeline h e2") (auto simp: saveEvent_def)
  have b: "\<forall>d2. eventPipeline h e2 = Inr d2 \<longrightarrow>
          slug d2 = slug d1 \<and> insertEvent db1 d2 = (Inl (DuplicateKey ''slug''), db1)
          \<and> saveEvent h db1 e2 = (Inl (DuplicateKey ''slug''), db1)"
    using dup by (auto simp: saveEvent_def)
  have c: "distinct (map slug (events db)) \<longrightarrow> distinct (map slug (events db1))"
    using fresh ev by (auto simp: list_ex_iff)
  show ?thesis using a b c by blast
qed

lemma second_pipeline:
  "eventPipeline utcHost (sampleEvent '' hello  world '' 102) =
     Inr ((sampleEvent ''hello  world'' 102)\<lparr>slug := ''hello-world'', time := ''09:30''\<rparr>)"
  by code_simp

text \<open>
  The claim as stated has the check at the application level. It is not: with the Event
  titled \<open>Hello, World!\<close> stored under the slug \<open>hello-world\<close>, the application accepts
  a second Event whose title gives the same slug, and only the insert rejects it.
\<close>

theorem event_slug_application_check_counterexample:
  "events savedDb = [(sampleEvent ''Hello, World!'' 101)\<lparr>slug := ''hello-world'', time := ''09:30''\<rparr>]
   \<and> eventPipeline utcHost (sampleEvent '' hello  world '' 102) =
       Inr ((sampleEvent ''hello  world'' 102)\<lparr>slug := ''hello-world'', time := ''09:30''\<rparr>)
   \<and> insertEvent savedDb ((sampleEvent ''hello  world'' 102)\<lparr>slug := ''hello-world'', time := ''09:30''\<rparr>) =
       (Inl (DuplicateKey ''slug''), savedDb)"
  using savedDb_events second_pipeline
  by (simp add: insertEvent_def sampleEvent_def)

theorem event_slug_unique_index_witness:
  "saveEvent utcHost emptyDb (sampleEvent ''Hello, World!'' 101) =
      (Inr ((sampleEvent ''Hello, World!'' 101)\<lparr>slug := ''hello-world'', time := ''09:30''\<rparr>), savedDb)
   \<and> generateSlug (title (sampleEvent '' hello  world '' 102)) = generateSlug (title (sampleEvent ''Hello, World!'' 101))
   \<and> saveEvent utcHost savedDb (sampleEvent '' hello  world '' 102) = (Inl (DuplicateKey ''slug''), savedDb)"
proof -
  have s: "saveEvent utcHost emptyDb (sampleEvent ''Hello, World!'' 101) =
      (Inr ((sampleEvent ''Hello, World!'' 101)\<lparr>slug := ''hello-world'', time := ''09:30''\<rparr>), savedDb)"
    using sample_saved by (simp add: savedDb_def)
  have g: "generateSlug (title (sampleEvent '' hello  world '' 102)) = generateSlug (title (sampleEvent ''Hello, World!'' 101))"
    by code_simp
  show ?thesis
    using event_slug_unique_index [OF s g] second_pipeline s g by simp
qed

section \<open>Properties of the time normalizer\<close>

lemma digitVal_digitChar: "n < 10 \<Longrightarrow> digitVal (digitChar n) = int n"
  by (simp add: digitVal_def digitChar_code)

lemma Number_snoc: "Number (s @ [c]) = 10 * Number s + digitVal c"
  by (simp add: Number_def)

lemma Number_String: "Number (String n) = int n"
proof (induction n rule: String.induct)
  case (1 n)
  show ?case
  proof (cases "n < 10")
    case True
    then show ?thesis by (simp add: String.simps[of n] Number_def digitVal_digitChar)
  next
    case False
    then have "Number (String n) = 10 * int (n div 10) + int (n mod 10)"
      using 1 by (simp add: String.simps[of n] Number_snoc digitVal_digitChar)
    then show ?thesis by (simp add: zdiv_int zmod_int)
  qed
qed

lemma Number_zeros: "Number (replicate k CHR ''0'' @ s) = Number s"
proof (induction k)
  case 0
  show ?case by simp
next
  case (Suc k)
  have z: "digitVal CHR ''0'' = 0" by (simp add: digitVal_def code_def)
  have "\<And>a. foldl (\<lambda>a c. 10 * a + digitVal c) a (replicate k CHR ''0'' @ s) =
             foldl (\<lambda>a c. 10 * a + digitVal c) (a * 10 ^ k) s"
    by (induction k) (simp_all add: z algebra_simps)
  then show ?case by (simp add: Number_def z)
qed

lemma Number_pad: "0 \<le> n \<Longrightarrow> Number (pad k n) = n"
  by (simp add: pad_def padStart_def Number_zeros Number_String)

lemma length_String: "0 < k \<Longrightarrow> n < 10 ^ k \<Longrightarrow> length (String n) \<le> k"
proof (induction n arbitrary: k rule: String.induct)
  case (1 n)
  show ?case
  proof (cases "n < 10")
    case True
    then show ?thesis using 1(2) by (simp add: String.simps[of n])
  next
    case False
    then obtain j where k: "k = Suc j" and j: "0 < j"
      using 1(2,3) by (cases k; cases "k - 1") auto
    have "n div 10 < 10 ^ j" using 1(3) k by (simp add: less_mult_imp_div_less mult.commute)
    then have "length (String (n div 10)) \<le> j" using 1(1)[OF False j] by simp
    then show ?thesis using False k by (simp add: String.simps[of n])
  qed
qed

lemma length_pad: "0 < k \<Longrightarrow> 0 \<le> n \<Longrightarrow> n < 10 ^ k \<Longrightarrow> length (pad k n) = k"
proof -
  assume k: "0 < k" and n: "0 \<le> n" "n < 10 ^ k"
  have "nat n < 10 ^ k" using n by (simp add: nat_less_iff)
  then have "length (String (nat n)) \<le> k" using k by (rule length_String[rotated])
  then show ?thesis by (simp add: pad_def padStart_def)
qed

lemma readDigits_pad:
  "0 < k \<Longrightarrow> 0 \<le> n \<Longrightarrow> n < 10 ^ k \<Longrightarrow> readDigits k (pad k n @ r) = Some (n, r)"
  using pad_digits[of k n] by (simp add: readDigits_def length_pad Number_pad)

lemma pad_nonempty: "pad k n \<noteq> []"
  by (simp add: pad_def padStart_def String.simps[of "nat n"])

lemma hd_pad_digit: "isDigit (hd (pad k n))"
  using pad_digits[of k n] pad_nonempty[of k n] by (cases "pad k n") auto

lemma isoFormat_1970:
  "isoFormat (''1970-01-01T'' @ r) =
     (case isoTime r of
        None \<Rightarrow> None
      | Some (hh, mi, sec, ms, z) \<Rightarrow>
          Some \<lparr>yearF = 1970, monthF = 1, dayF = 1, hourF = hh, minuteF = mi,
                secondF = sec, msF = ms, zoneF = z\<rparr>)"
  by (simp add: isoFormat_def isoYear_def isoOptional_def readDigits_def isDigit_def code_def
      Number_def digitVal_def split: option.splits)

lemma Date_parse_nonstandard:
  "isoFormat s = None \<Longrightarrow> legacyParse h s = None \<Longrightarrow> Date_parse h s = None"
  by (simp add: Date_parse_def)

lemma normalizeTime_fallback:
  assumes "v \<noteq> []" and "isoTime (trim v) = None"
    and "legacyParse h (''1970-01-01T'' @ trim v) = None"
    and "rxMatch timeRe (trim v) = Some m"
  shows "normalizeTime h v =
     (let hour = applyAmPm (capture m 3) (Number (case capture m 1 of None \<Rightarrow> [] | Some w \<Rightarrow> w));
          minute = (case capture m 2 of None \<Rightarrow> 0 | Some w \<Rightarrow> Number w)
      in if hour < 0 \<or> hour > 23 \<or> minute < 0 \<or> minute > 59 then Inl InvalidTimeValue
         else Inr (pad 2 hour @ '':'' @ pad 2 minute))"
proof -
  have "isoFormat (''1970-01-01T'' @ trim v) = None"
    using assms(2) by (simp only: isoFormat_1970) simp
  then have "Date_parse h (''1970-01-01T'' @ trim v) = None"
    using assms(3) by (rule Date_parse_nonstandard)
  then show ?thesis using assms(1,4) by (simp add: normalizeTime_def Let_def)
qed

lemma applyAmPm_rule:
  "applyAmPm None hour = hour"
  "applyAmPm (Some ''AM'') hour = (if hour = 12 then 0 else hour)"
  "applyAmPm (Some ''am'') hour = (if hour = 12 then 0 else hour)"
  "applyAmPm (Some ''PM'') hour = (if hour < 12 then hour + 12 else hour)"
  "applyAmPm (Some ''pm'') hour = (if hour < 12 then hour + 12 else hour)"
proof -
  have l: "toLowerCase ''AM'' = ''am''" "toLowerCase ''PM'' = ''pm''"
    "toLowerCase ''am'' = ''am''" "toLowerCase ''pm'' = ''pm''"
    by code_simp+
  show "applyAmPm None hour = hour"
    "applyAmPm (Some ''AM'') hour = (if hour = 12 then 0 else hour)"
    "applyAmPm (Some ''am'') hour = (if hour = 12 then 0 else hour)"
    "applyAmPm (Some ''PM'') hour = (if hour < 12 then hour + 12 else hour)"
    "applyAmPm (Some ''pm'') hour = (if hour < 12 then hour + 12 else hour)"
    by (simp_all add: applyAmPm_def l Let_def)
qed


lemma four_not_iso:
  "isoTime ''9:30 AM'' = None" "isoTime ''9:30 PM'' = None"
  "isoTime ''12:00 AM'' = None" "isoTime ''12:00 PM'' = None"
  by code_simp+

lemma four_trim:
  "trim ''9:30 AM'' = ''9:30 AM''" "trim ''9:30 PM'' = ''9:30 PM''"
  "trim ''12:00 AM'' = ''12:00 AM''" "trim ''12:00 PM'' = ''12:00 PM''"
  by code_simp+

lemma four_match:
  "rxMatch timeRe ''9:30 AM'' = Some [(3, ''AM''), (2, ''30''), (1, ''9'')]"
  "rxMatch timeRe ''9:30 PM'' = Some [(3, ''PM''), (2, ''30''), (1, ''9'')]"
  "rxMatch timeRe ''12:00 AM'' = Some [(3, ''AM''), (2, ''00''), (1, ''12'')]"
  "rxMatch timeRe ''12:00 PM'' = Some [(3, ''PM''), (2, ''00''), (1, ''12'')]"
  by code_simp+

lemma four_numbers:
  "Number ''9'' = 9" "Number ''12'' = 12" "Number ''30'' = 30" "Number ''00'' = 0"
  "pad 2 9 = ''09''" "pad 2 21 = ''21''" "pad 2 0 = ''00''" "pad 2 12 = ''12''" "pad 2 30 = ''30''"
  by code_simp+

text \<open>
  Claim C2. On a host whose \<open>Date\<close> does not recognise the four strings behind the base
  date (they are outside the Date Time String Format, so their reading is the host's),
  \<open>normalizeTime\<close> maps \<open>9:30 AM\<close> to \<open>09:30\<close>, \<open>9:30 PM\<close> to \<open>21:30\<close>,
  \<open>12:00 AM\<close> to \<open>00:00\<close> and \<open>12:00 PM\<close> to \<open>12:00\<close>, whatever the time zone.
  The conversion maps 12 AM to hour 0 and 12 PM to hour 12, adds 12 to every PM hour
  below 12 and leaves every other AM hour as it is.
\<close>

theorem normalizeTime_examples:
  assumes "legacyParse h ''1970-01-01T9:30 AM'' = None"
    and "legacyParse h ''1970-01-01T9:30 PM'' = None"
    and "legacyParse h ''1970-01-01T12:00 AM'' = None"
    and "legacyParse h ''1970-01-01T12:00 PM'' = None"
  shows "normalizeTime h ''9:30 AM'' = Inr ''09:30''
    \<and> normalizeTime h ''9:30 PM'' = Inr ''21:30''
    \<and> normalizeTime h ''12:00 AM'' = Inr ''00:00''
    \<and> normalizeTime h ''12:00 PM'' = Inr ''12:00''
    \<and> applyAmPm (Some ''AM'') 12 = 0
    \<and> applyAmPm (Some ''PM'') 12 = 12
    \<and> (hour < 12 \<longrightarrow> applyAmPm (Some ''PM'') hour = hour + 12)
    \<and> (hour \<noteq> 12 \<longrightarrow> applyAmPm (Some ''AM'') hour = hour)"
proof -
  have a: "normalizeTime h ''9:30 AM'' = Inr ''09:30''"
    using assms(1)
    by (subst normalizeTime_fallback[where m = "[(3, ''AM''), (2, ''30''), (1, ''9'')]"])
       (simp_all add: four_trim four_not_iso four_match capture_def applyAmPm_rule four_numbers)
  have b: "normalizeTime h ''9:30 PM'' = Inr ''21:30''"
    using assms(2)
    by (subst normalizeTime_fallback[where m = "[(3, ''PM''), (2, ''30''), (1, ''9'')]"])
       (simp_all add: four_trim four_not_iso four_match capture_def applyAmPm_rule four_numbers)
  have c: "normalizeTime h ''12:00 AM'' = Inr ''00:00''"
    using assms(3)
    by (subst normalizeTime_fallback[where m = "[(3, ''AM''), (2, ''00''), (1, ''12'')]"])
       (simp_all add: four_trim four_not_iso four_match capture_def applyAmPm_rule four_numbers)
  have d: "normalizeTime h ''12:00 PM'' = Inr ''12:00''"
    using assms(4)
    by (subst normalizeTime_fallback[where m = "[(3, ''PM''), (2, ''00''), (1, ''12'')]"])
       (simp_all add: four_trim four_not_iso four_match capture_def applyAmPm_rule four_numbers)
  show ?thesis using a b c d by (simp add: applyAmPm_rule)
qed

theorem normalizeTime_examples_witness:
  "legacyParse utcHost ''1970-01-01T9:30 AM'' = None
   \<and> legacyParse eastHost ''1970-01-01T9:30 PM'' = None
   \<and> normalizeTime utcHost ''9:30 AM'' = Inr ''09:30''
   \<and> normalizeTime eastHost ''9:30 PM'' = Inr ''21:30''
   \<and> normalizeTime eastHost ''12:00 AM'' = Inr ''00:00''
   \<and> normalizeTime utcHost ''12:00 PM'' = Inr ''12:00''
   \<and> applyAmPm (Some ''PM'') 3 = 15"
  using normalizeTime_examples [of utcHost 3] normalizeTime_examples [of eastHost 3]
  by (simp add: utcHost_def eastHost_def)

text \<open>
  Claim C3 at a failing input. \<open>new Date('1970-01-01T21:00')\<close> reads \<open>21:00\<close> as
  local time and \<open>getUTCHours\<close> reads the hour back in UTC. Three hours east of UTC,
  \<open>21:00\<close> becomes \<open>18:00\<close>, and normalizing \<open>18:00\<close> again gives \<open>15:00\<close>: the
  canonical form is not a fixed point. The fallback branch does not shift:
  \<open>9:00 PM\<close> gives \<open>21:00\<close> on the same host.
\<close>

theorem normalizeTime_not_idempotent_east:
  "normalizeTime eastHost ''21:00'' = Inr ''18:00''
   \<and> normalizeTime eastHost ''18:00'' = Inr ''15:00''
   \<and> normalizeTime eastHost ''9:00 PM'' = Inr ''21:00''"
  by code_simp


lemma firstWay_iff: "firstWay r st st' \<longleftrightarrow> (\<exists>xs. rxm r st = st' # xs)"
  by (auto simp: firstWay_def split: list.splits)

lemma fw_Seq: "firstWay a st st1 \<Longrightarrow> firstWay b st1 st2 \<Longrightarrow> firstWay (Seq a b) st st2"
  by (auto simp: firstWay_iff)

lemma fw_Opt_take: "firstWay a st st1 \<Longrightarrow> firstWay (Opt a) st st1"
  by (auto simp: firstWay_iff)

lemma fw_Opt_skip: "rxm a st = [] \<Longrightarrow> firstWay (Opt a) st st"
  by (auto simp: firstWay_iff)

lemma fw_Alt_left: "firstWay a st st1 \<Longrightarrow> firstWay (Alt a b) st st1"
  by (auto simp: firstWay_iff)

lemma fw_Alt_right: "rxm a st = [] \<Longrightarrow> firstWay b st st1 \<Longrightarrow> firstWay (Alt a b) st st1"
  by (auto simp: firstWay_iff)

lemma fw_Str: "firstWay (Str w) (w @ r, g) (r, g)"
  by (simp add: firstWay_iff)

lemma fw_Grp:
  "firstWay a (s, g) (r, g') \<Longrightarrow> firstWay (Grp i a) (s, g) (r, (i, take (length s - length r) s) # g')"
  by (auto simp: firstWay_iff)

lemma repeats_first:
  "lo \<le> min hi (length (takeWhile P s)) \<Longrightarrow>
     \<exists>xs. repeats P lo hi (s, g) = (drop (min hi (length (takeWhile P s))) s, g) # xs"
  by (simp add: repeats_def Let_def)

lemma fw_Rep:
  "lo \<le> min hi (length (takeWhile P s)) \<Longrightarrow>
     firstWay (Rep P lo hi) (s, g) (drop (min hi (length (takeWhile P s))) s, g)"
  using repeats_first[of lo hi P s g] by (simp add: firstWay_iff)

lemma fw_Star: "firstWay (Star P) (s, g) (dropWhile P s, g)"
proof -
  have "length (takeWhile P s) \<le> length s" by (rule length_takeWhile_le)
  then have m: "min (length s) (length (takeWhile P s)) = length (takeWhile P s)" by simp
  have "drop (length (takeWhile P s)) s = dropWhile P s" by (rule dropWhile_eq_drop[symmetric])
  then show ?thesis using repeats_first[of 0 "length s" P s g] m by (simp add: firstWay_iff)
qed

lemma repeats_none: "min hi (length (takeWhile P s)) < lo \<Longrightarrow> repeats P lo hi (s, g) = []"
  by (auto simp: repeats_def Let_def)

lemma rxMatch_first: "firstWay r (s, []) ([], g) \<Longrightarrow> rxMatch r s = Some g"
  by (auto simp: firstWay_iff rxMatch_def)

lemma takeWhile_stop:
  "list_all P xs \<Longrightarrow> ys = [] \<or> \<not> P (hd ys) \<Longrightarrow> takeWhile P (xs @ ys) = xs"
  by (cases ys) (auto simp: list_all_iff)



lemma afterHour_facts:
  "afterHour c \<Longrightarrow> \<not> isDigit c \<and> c \<noteq> CHR '':'' \<and> c \<noteq> CHR ''.'' \<and> c \<noteq> CHR ''h''"
  by (auto simp: afterHour_def isWhiteSpace_def isDigit_def code_def)

lemma suffix_facts:
  assumes "ap = ''AM'' \<or> ap = ''PM'' \<or> ap = ''am'' \<or> ap = ''pm''"
  shows "ap \<noteq> []" "afterHour (hd ap)" "\<not> isWhiteSpace (hd ap)" "\<not> isWhiteSpace (last ap)"
  using assms by (auto simp: afterHour_def isWhiteSpace_def code_def)

lemma tail_facts:
  assumes "list_all isWhiteSpace ws"
    and "ap = [] \<or> ap = ''AM'' \<or> ap = ''PM'' \<or> ap = ''am'' \<or> ap = ''pm''"
  shows "ws @ ap = [] \<or> afterHour (hd (ws @ ap))"
proof (cases ws)
  case Nil
  then show ?thesis using assms(2) suffix_facts(2)[of ap] by auto
next
  case (Cons a as)
  then show ?thesis using assms(1) by (simp add: afterHour_def)
qed

lemma hour_not_isoTime:
  assumes "hs \<noteq> []" "length hs \<le> 2" "list_all isDigit hs"
    and "r = [] \<or> afterHour (hd r)"
  shows "isoTime (hs @ r) = None"
proof (cases "length hs = 2")
  case True
  then have "readDigits 2 (hs @ r) = Some (Number hs, r)"
    using assms(3) by (simp add: readDigits_def)
  then show ?thesis using assms(4) afterHour_facts[of "hd r"]
    by (cases r) (auto simp: isoTime_def)
next
  case False
  then obtain d where hs: "hs = [d]" using assms(1,2) by (cases hs; cases "tl hs") auto
  have "readDigits 2 (hs @ r) = None"
    using assms(4) afterHour_facts[of "hd r"] unfolding hs
    by (cases r) (auto simp: readDigits_def)
  then show ?thesis by (simp add: isoTime_def)
qed

lemma hour_match:
  assumes hs: "hs \<noteq> []" "length hs \<le> 2" "list_all isDigit hs"
    and ws: "list_all isWhiteSpace ws"
    and ap: "ap = [] \<or> ap = ''AM'' \<or> ap = ''PM'' \<or> ap = ''am'' \<or> ap = ''pm''"
  shows "rxMatch timeRe (hs @ ws @ ap) = Some (if ap = [] then [(1, hs)] else [(3, ap), (1, hs)])"
proof -
  let ?r = "ws @ ap"
  have r: "?r = [] \<or> afterHour (hd ?r)" using ws ap by (rule tail_facts)
  then have rd: "?r = [] \<or> \<not> isDigit (hd ?r)" using afterHour_facts by blast
  have tw: "takeWhile isDigit (hs @ ?r) = hs" using hs(3) rd by (rule takeWhile_stop)
  have n: "min 2 (length hs) = length hs" using hs(2) by simp
  have "firstWay (Rep isDigit 1 2) (hs @ ?r, []) (drop (min 2 (length (takeWhile isDigit (hs @ ?r)))) (hs @ ?r), [])"
    using hs(1) tw n by (intro fw_Rep) (simp, cases hs, auto)
  then have "firstWay (Rep isDigit 1 2) (hs @ ?r, []) (?r, [])" by (simp add: tw n)
  then have g1: "firstWay (Grp 1 (Rep isDigit 1 2)) (hs @ ?r, []) (?r, [(1, hs)])"
    using fw_Grp[of "Rep isDigit 1 2" "hs @ ?r" "[]" ?r "[]" 1] by simp
  have sep: "firstWay (Opt (Alt (Chr CHR '':'') (Alt (Chr CHR ''.'') (Chr CHR ''h'')))) (?r, [(1, hs)]) (?r, [(1, hs)])"
    using r afterHour_facts[of "hd ?r"] by (intro fw_Opt_skip) (cases ?r, auto)
  have "takeWhile isDigit ?r = []" using rd by (cases ?r) auto
  then have "rxm (Grp 2 (Rep isDigit 2 2)) (?r, [(1, hs)]) = []"
    by (simp add: repeats_none)
  then have mins: "firstWay (Opt (Grp 2 (Rep isDigit 2 2))) (?r, [(1, hs)]) (?r, [(1, hs)])"
    by (rule fw_Opt_skip)
  have "dropWhile isWhiteSpace ?r = ap"
    using ws ap suffix_facts(3)[of ap] by (intro dropWhile_stop) auto
  then have star: "firstWay (Star isWhiteSpace) (?r, [(1, hs)]) (ap, [(1, hs)])"
    using fw_Star[of isWhiteSpace ?r "[(1, hs)]"] by simp
  let ?alts = "Alt (Str ''AM'') (Alt (Str ''PM'') (Alt (Str ''am'') (Str ''pm'')))"
  have last: "firstWay (Opt (Grp 3 ?alts)) (ap, [(1, hs)])
                ([], if ap = [] then [(1, hs)] else [(3, ap), (1, hs)])"
  proof (cases "ap = []")
    case True
    then show ?thesis by (simp add: firstWay_iff)
  next
    case False
    then have "firstWay ?alts (ap, [(1, hs)]) ([], [(1, hs)])"
      using ap by (auto simp: firstWay_iff)
    then have "firstWay (Grp 3 ?alts) (ap, [(1, hs)]) ([], [(3, ap), (1, hs)])"
      using fw_Grp[of ?alts ap "[(1, hs)]" "[]" "[(1, hs)]" 3] by simp
    then show ?thesis using False by (simp add: fw_Opt_take)
  qed
  have "firstWay timeRe (hs @ ?r, []) ([], if ap = [] then [(1, hs)] else [(3, ap), (1, hs)])"
    unfolding timeRe_def
    by (rule fw_Seq[OF g1], rule fw_Seq[OF sep], rule fw_Seq[OF mins], rule fw_Seq[OF star], rule last)
  then show ?thesis by (rule rxMatch_first)
qed

lemma digit_not_ws: "isDigit c \<Longrightarrow> \<not> isWhiteSpace c"
  by (auto simp: isDigit_def isWhiteSpace_def)

lemma Number_nonneg: "list_all isDigit s \<Longrightarrow> 0 \<le> Number s"
proof -
  have "\<And>a. 0 \<le> a \<Longrightarrow> list_all isDigit s \<Longrightarrow> 0 \<le> foldl (\<lambda>a c. 10 * a + digitVal c) a s"
    by (induction s) (auto simp: digitVal_def isDigit_def)
  then show "list_all isDigit s \<Longrightarrow> 0 \<le> Number s" by (simp add: Number_def)
qed

lemma pad2_zero: "pad 2 0 = ''00''"
  by code_simp

text \<open>
  Claim C10. The minutes group of the fallback pattern is optional. An input that is one
  or two digits, optionally followed by white space and \<open>AM\<close>, \<open>PM\<close>, \<open>am\<close> or
  \<open>pm\<close>, matches the pattern with no minutes; on a host whose \<open>Date\<close> does not
  recognise the input behind the base date, \<open>normalizeTime\<close> returns the hour, in 24-hour
  form, with minute \<open>00\<close>. The only failure is an hour above 23, the invalid-value error.
\<close>

theorem normalizeTime_hour_only:
  assumes hs: "hs \<noteq> []" "length hs \<le> 2" "list_all isDigit hs"
    and ws: "list_all isWhiteSpace ws"
    and ap: "(ap = [] \<and> ws = []) \<or> ap = ''AM'' \<or> ap = ''PM'' \<or> ap = ''am'' \<or> ap = ''pm''"
    and legacy: "legacyParse h (''1970-01-01T'' @ hs @ ws @ ap) = None"
  shows "normalizeTime h (hs @ ws @ ap) =
     (if applyAmPm (if ap = [] then None else Some ap) (Number hs) > 23 then Inl InvalidTimeValue
      else Inr (pad 2 (applyAmPm (if ap = [] then None else Some ap) (Number hs)) @ '':00''))"
proof -
  let ?v = "hs @ ws @ ap"
  have ap': "ap = [] \<or> ap = ''AM'' \<or> ap = ''PM'' \<or> ap = ''am'' \<or> ap = ''pm''" using ap by blast
  have ne: "?v \<noteq> []" using hs(1) by simp
  have hd: "\<not> isWhiteSpace (hd ?v)" using hs(1,3) by (cases hs) (auto dest: digit_not_ws)
  have la: "\<not> isWhiteSpace (last ?v)"
  proof (cases "ap = []")
    case True
    then have "?v = hs" using ap by auto
    moreover have "isDigit (last hs)" using hs(1,3) by (simp add: list_all_iff)
    ultimately show ?thesis by (auto dest: digit_not_ws)
  next
    case False
    then show ?thesis using ap suffix_facts(4)[of ap] by auto
  qed
  have tr: "trim ?v = ?v" using hd la by (intro trim_id) simp
  have iso: "isoTime (trim ?v) = None"
    unfolding tr using hs tail_facts[OF ws ap'] by (rule hour_not_isoTime)
  have m: "rxMatch timeRe (trim ?v) = Some (if ap = [] then [(1, hs)] else [(3, ap), (1, hs)])"
    unfolding tr using hs ws ap' by (rule hour_match)
  have nn: "0 \<le> Number hs" using hs(3) by (rule Number_nonneg)
  have pos: "0 \<le> applyAmPm (if ap = [] then None else Some ap) (Number hs)"
    using ap' nn by (auto simp: applyAmPm_rule)
  have leg: "legacyParse h (''1970-01-01T'' @ trim ?v) = None" using legacy by (simp only: tr)
  show ?thesis
    using pos
    by (subst normalizeTime_fallback[OF ne iso leg m])
       (auto simp: capture_def Let_def pad2_zero)
qed

theorem normalizeTime_hour_only_witness:
  "legacyParse utcHost (''1970-01-01T'' @ ''9'' @ '' '' @ ''PM'') = None
   \<and> normalizeTime utcHost ''9 PM'' = Inr ''21:00''
   \<and> normalizeTime utcHost ''9'' = Inr ''09:00''
   \<and> normalizeTime utcHost ''25'' = Inl InvalidTimeValue"
proof -
  have d: "isDigit CHR ''9''" "isDigit CHR ''2''" "isDigit CHR ''5''" "isWhiteSpace CHR '' ''"
    by code_simp+
  have n: "Number ''9'' = 9" "Number ''25'' = 25" "pad 2 21 = ''21''" "pad 2 9 = ''09''"
    by code_simp+
  have l: "\<And>s. legacyParse utcHost s = None" by (simp add: utcHost_def)
  show ?thesis
    using normalizeTime_hour_only [of "''9''" "'' ''" "''PM''" utcHost]
      normalizeTime_hour_only [of "''9''" "[]" "[]" utcHost]
      normalizeTime_hour_only [of "''25''" "[]" "[]" utcHost]
    by (simp add: d n l applyAmPm_rule)
qed

lemma isoTime_canonical:
  assumes "0 \<le> hh" "hh \<le> 23" "0 \<le> mm" "mm \<le> 59"
  shows "isoTime (pad 2 hh @ '':'' @ pad 2 mm) = Some (hh, mm, 0, 0, LocalTime)"
proof -
  have a: "readDigits 2 (pad 2 hh @ '':'' @ pad 2 mm) = Some (hh, '':'' @ pad 2 mm)"
    using assms by (intro readDigits_pad) auto
  have b: "readDigits 2 (pad 2 mm) = Some (mm, [])"
    using assms readDigits_pad[of 2 mm "[]"] by simp
  show ?thesis
    using a b by (simp add: isoTime_def isoOptional_def isoZone_def)
qed

lemma MakeDay_epoch: "MakeDay 1970 0 1 = 0"
  by (simp add: MakeDay_def DayFromYear_def monthStart_def)

lemma hour_minute_of_time:
  assumes "0 \<le> hh" "hh \<le> 23" "0 \<le> mm" "mm \<le> 59"
  shows "HourFromTime (hh * msPerHour + mm * msPerMinute) = hh"
    and "MinFromTime (hh * msPerHour + mm * msPerMinute) = mm"
proof -
  let ?t = "hh * 3600000 + mm * 60000"
  have "?t = 3600000 * hh + mm * 60000" by simp
  moreover have "0 \<le> mm * 60000" "mm * 60000 < 3600000" using assms by auto
  ultimately have "?t div 3600000 = hh" by (rule int_div_pos_eq)
  then show "HourFromTime (hh * msPerHour + mm * msPerMinute) = hh"
    using assms by (simp add: HourFromTime_def msPerHour_def msPerMinute_def)
  have "?t = 60000 * (hh * 60 + mm) + 0" by simp
  then have "?t div 60000 = hh * 60 + mm" by (rule int_div_pos_eq) simp_all
  then show "MinFromTime (hh * msPerHour + mm * msPerMinute) = mm"
    using assms by (simp add: MinFromTime_def msPerHour_def msPerMinute_def)
qed

lemma normalizeTime_canonical_utc:
  assumes "0 \<le> hh" "hh \<le> 23" "0 \<le> mm" "mm \<le> 59"
    and "LocalTZA h (hh * msPerHour + mm * msPerMinute) = 0"
  shows "normalizeTime h (pad 2 hh @ '':'' @ pad 2 mm) = Inr (pad 2 hh @ '':'' @ pad 2 mm)"
proof -
  let ?r = "pad 2 hh @ '':'' @ pad 2 mm"
  have ne: "?r \<noteq> []" by simp
  have "list_all isoChar ?r" using pad_isoChar by (simp add: isoChar_def)
  then have tr: "trim ?r = ?r" by (rule trim_isoChar)
  have f: "isoFormat (''1970-01-01T'' @ ?r) =
      Some \<lparr>yearF = 1970, monthF = 1, dayF = 1, hourF = hh, minuteF = mm,
            secondF = 0, msF = 0, zoneF = LocalTime\<rparr>"
    by (simp only: isoFormat_1970 isoTime_canonical[OF assms(1-4)]) simp
  have t: "hh * msPerHour + mm * msPerMinute \<le> 8640000000000000"
    "- 8640000000000000 \<le> hh * msPerHour + mm * msPerMinute"
    using assms(1-4) by (auto simp: msPerHour_def msPerMinute_def)
  have p: "Date_parse h (''1970-01-01T'' @ ?r) = Some (hh * msPerHour + mm * msPerMinute)"
    unfolding Date_parse_def f using assms t
    by (simp add: fieldsInBounds_def timeOfFields_def MakeDay_epoch MakeDate_def
        MakeTime_def TimeClip_def Let_def)
  show ?thesis
    unfolding normalizeTime_def Let_def tr p
    using ne hour_minute_of_time[OF assms(1-4)] by simp
qed

text \<open>Where local time is UTC, \<open>normalizeTime\<close> is idempotent on every input on which it
  succeeds.\<close>

lemma normalizeTime_idempotent_utc:
  assumes "normalizeTime h v = Inr r" and "\<And>t. LocalTZA h t = 0"
  shows "normalizeTime h r = Inr r"
proof -
  from assms(1) obtain hh mm where
    b: "0 \<le> hh" "hh \<le> 23" "0 \<le> mm" "mm \<le> 59" and r: "r = pad 2 hh @ '':'' @ pad 2 mm"
    by (auto dest: normalizeTime_form)
  show ?thesis unfolding r using b assms(2) by (rule normalizeTime_canonical_utc)
qed

section \<open>Properties of the date normalizer\<close>

lemma yearDown_le: "DayFromYear (yearDown d y) \<le> d"
proof (induction d y rule: yearDown.induct)
  case (1 d y)
  then show ?case by (simp add: yearDown.simps[of d y])
qed

lemma yearUp_spec:
  "DayFromYear y \<le> d \<Longrightarrow> DayFromYear (yearUp d y) \<le> d \<and> d < DayFromYear (yearUp d y + 1)"
proof (induction d y rule: yearUp.induct)
  case (1 d y)
  show ?case
  proof (cases "d < DayFromYear (y + 1)")
    case True
    then show ?thesis using 1(2) by (simp add: yearUp.simps[of d y])
  next
    case False
    then have "DayFromYear (y + 1) \<le> d" by simp
    then show ?thesis using 1(1)[OF False] False by (simp add: yearUp.simps[of d y])
  qed
qed

lemma YearFromDay_spec:
  "DayFromYear (YearFromDay d) \<le> d \<and> d < DayFromYear (YearFromDay d + 1)"
  unfolding YearFromDay_def by (rule yearUp_spec) (rule yearDown_le)

lemma dayWithinYear_bounds:
  "0 \<le> d - DayFromYear (YearFromDay d) \<and>
   d - DayFromYear (YearFromDay d) < 365 + InLeapYear (YearFromDay d)"
proof -
  have "DayFromYear (YearFromDay d + 1) = DayFromYear (YearFromDay d) + DaysInYear (YearFromDay d)"
    by (rule DayFromYear_next)
  moreover have "DaysInYear y = 365 + InLeapYear y" for y
    by (simp add: InLeapYear_def DaysInYear_def)
  ultimately show ?thesis using YearFromDay_spec[of d] by simp
qed

lemma InLeapYear_01: "InLeapYear y = 0 \<or> InLeapYear y = 1"
  by (simp add: InLeapYear_def)

lemma month_bounds:
  assumes "0 \<le> w" "w < 365 + l" "l = 0 \<or> l = 1"
  shows "0 \<le> monthOfDay w l \<and> monthOfDay w l \<le> 11"
    and "1 \<le> w - monthStart (monthOfDay w l) l + 1 \<and> w - monthStart (monthOfDay w l) l + 1 \<le> 31"
  using assms by (auto simp: monthOfDay_def monthStart_def)

lemma toISOString_dateText: "\<exists>rest. toISOString t = dateText (Day t) @ rest"
  by (simp add: toISOString_def dateText_def YearFromTime_def MonthFromTime_def DateFromTime_def
      DayWithinYear_def Let_def)

lemma length_pad_ge: "k \<le> length (pad k n)"
  by (simp add: pad_def padStart_def)

lemma length_isoYearText: "4 \<le> length (isoYearText y)"
  using length_pad_ge[of 4 y] length_pad_ge[of 6 "\<bar>y\<bar>"] by (auto simp: isoYearText_def)

lemma length_dateText: "10 \<le> length (dateText d)"
proof -
  obtain y w m where "dateText d = isoYearText y @ ''-'' @ pad 2 (m + 1) @ ''-'' @ pad 2 w"
    by (simp add: dateText_def Let_def)
  then show ?thesis
    using length_isoYearText[of y] length_pad_ge[of 2 "m + 1"] length_pad_ge[of 2 w] by simp
qed

lemma take10_toISOString: "take 10 (toISOString t) = take 10 (dateText (Day t))"
proof -
  obtain rest where "toISOString t = dateText (Day t) @ rest" using toISOString_dateText by blast
  then show ?thesis using length_dateText[of "Day t"] by simp
qed

lemma dateText_ymd:
  assumes "0 \<le> YearFromDay d" "YearFromDay d \<le> 9999"
  shows "dateText d = pad 4 (YearFromDay d) @ ''-'' @
           pad 2 (monthOfDay (d - DayFromYear (YearFromDay d)) (InLeapYear (YearFromDay d)) + 1) @ ''-'' @
           pad 2 (d - DayFromYear (YearFromDay d)
                  - monthStart (monthOfDay (d - DayFromYear (YearFromDay d)) (InLeapYear (YearFromDay d)))
                      (InLeapYear (YearFromDay d)) + 1)"
    and "length (dateText d) = 10"
proof -
  let ?y = "YearFromDay d"
  let ?l = "InLeapYear ?y"
  let ?w = "d - DayFromYear ?y"
  let ?m = "monthOfDay ?w ?l"
  have w: "0 \<le> ?w" "?w < 365 + ?l" using dayWithinYear_bounds[of d] by auto
  have mb: "0 \<le> ?m \<and> ?m \<le> 11" "1 \<le> ?w - monthStart ?m ?l + 1 \<and> ?w - monthStart ?m ?l + 1 \<le> 31"
    using month_bounds[OF w InLeapYear_01] by auto
  show e: "dateText d = pad 4 ?y @ ''-'' @ pad 2 (?m + 1) @ ''-'' @ pad 2 (?w - monthStart ?m ?l + 1)"
    using assms by (simp add: dateText_def Let_def isoYearText_def)
  have "length (pad 4 ?y) = 4" using assms by (intro length_pad) auto
  moreover have "length (pad 2 (?m + 1)) = 2" using mb by (intro length_pad) auto
  moreover have "length (pad 2 (?w - monthStart ?m ?l + 1)) = 2" using mb by (intro length_pad) auto
  ultimately show "length (dateText d) = 10" unfolding e by simp
qed

lemma isoYear_pad: "0 \<le> y \<Longrightarrow> y \<le> 9999 \<Longrightarrow> isoYear (pad 4 y @ r) = Some (y, r)"
proof -
  assume y: "0 \<le> y" "y \<le> 9999"
  obtain c cs where p: "pad 4 y = c # cs" using pad_nonempty[of 4 y] by (cases "pad 4 y") auto
  have "isDigit c" using hd_pad_digit[of 4 y] p by simp
  then have c: "c \<noteq> CHR ''+''" "c \<noteq> CHR ''-''" by (auto simp: isDigit_def code_def)
  have "readDigits 4 (pad 4 y @ r) = Some (y, r)" using y by (intro readDigits_pad) auto
  then show ?thesis using c by (simp add: isoYear_def p)
qed

lemma isoFormat_ymd:
  assumes "0 \<le> y" "y \<le> 9999" "1 \<le> m" "m \<le> 12" "1 \<le> dt" "dt \<le> 31"
  shows "isoFormat (pad 4 y @ ''-'' @ pad 2 m @ ''-'' @ pad 2 dt) =
     Some \<lparr>yearF = y, monthF = m, dayF = dt, hourF = 0, minuteF = 0, secondF = 0, msF = 0,
           zoneF = Offset 0\<rparr>"
proof -
  have a: "isoYear (pad 4 y @ ''-'' @ pad 2 m @ ''-'' @ pad 2 dt) = Some (y, ''-'' @ pad 2 m @ ''-'' @ pad 2 dt)"
    using assms by (intro isoYear_pad) auto
  have b: "readDigits 2 (pad 2 m @ ''-'' @ pad 2 dt) = Some (m, ''-'' @ pad 2 dt)"
    using assms by (intro readDigits_pad) auto
  have c: "readDigits 2 (pad 2 dt) = Some (dt, [])"
    using assms readDigits_pad[of 2 dt "[]"] by simp
  show ?thesis
    unfolding isoFormat_def a using b c by (simp add: isoOptional_def)
qed

lemma isYMD_hd: "isYMD r \<Longrightarrow> r \<noteq> [] \<and> isDigit (hd r)"
  by (cases r) (auto simp: isYMD_def)

lemma isoYearText_sign:
  "\<not> (0 \<le> y \<and> y \<le> 9999) \<Longrightarrow> hd (isoYearText y) = CHR ''+'' \<or> hd (isoYearText y) = CHR ''-''"
  by (auto simp: isoYearText_def)

lemma dateText_hd: "hd (take 10 (dateText d)) = hd (isoYearText (YearFromDay d))"
proof -
  have "isoYearText (YearFromDay d) \<noteq> []" using length_isoYearText[of "YearFromDay d"] by auto
  then show ?thesis by (cases "isoYearText (YearFromDay d)") (auto simp: dateText_def Let_def)
qed

lemma ymd_year_range:
  assumes "isYMD (take 10 (dateText d))"
  shows "0 \<le> YearFromDay d \<and> YearFromDay d \<le> 9999"
proof (rule ccontr)
  assume n: "\<not> (0 \<le> YearFromDay d \<and> YearFromDay d \<le> 9999)"
  have "isDigit (hd (take 10 (dateText d)))" using assms isYMD_hd by blast
  then have "isDigit (hd (isoYearText (YearFromDay d)))" by (simp only: dateText_hd)
  moreover have "\<not> isDigit CHR ''+''" "\<not> isDigit CHR ''-''" by (simp_all add: isDigit_def code_def)
  ultimately show False using isoYearText_sign[OF n] by auto
qed

lemma MakeDay_of_day:
  "MakeDay (YearFromDay d)
     (monthOfDay (d - DayFromYear (YearFromDay d)) (InLeapYear (YearFromDay d)))
     (d - DayFromYear (YearFromDay d)
        - monthStart (monthOfDay (d - DayFromYear (YearFromDay d)) (InLeapYear (YearFromDay d)))
            (InLeapYear (YearFromDay d)) + 1) = d"
proof -
  let ?y = "YearFromDay d"
  let ?l = "InLeapYear ?y"
  let ?w = "d - DayFromYear ?y"
  let ?m = "monthOfDay ?w ?l"
  have w: "0 \<le> ?w" "?w < 365 + ?l" using dayWithinYear_bounds[of d] by auto
  have mb: "0 \<le> ?m \<and> ?m \<le> 11" using month_bounds(1)[OF w InLeapYear_01] .
  then have "?m div 12 = 0" "?m mod 12 = ?m" by auto
  then show ?thesis by (simp add: MakeDay_def Let_def)
qed

lemma Date_parse_range: "Date_parse h v = Some t \<Longrightarrow> \<bar>t\<bar> \<le> 8640000000000000"
  by (auto simp: Date_parse_def timeOfFields_def TimeClip_def Let_def
      split: option.splits if_splits zone.splits)

lemma Day_range:
  assumes "\<bar>t\<bar> \<le> 8640000000000000"
  shows "\<bar>Day t * msPerDay\<bar> \<le> 8640000000000000"
proof -
  have u: "Day t * msPerDay \<le> t"
    unfolding Day_def msPerDay_def using div_mult_mod_eq[of t 86400000] pos_mod_sign[of 86400000 t]
    by linarith
  have "- 100000000 * 86400000 \<le> t" using assms by simp
  then have "(- 100000000 * 86400000) div 86400000 \<le> t div 86400000" by (rule zdiv_mono1) simp
  then have "- 100000000 \<le> Day t" by (simp add: Day_def msPerDay_def)
  then have "- 8640000000000000 \<le> Day t * msPerDay" by (simp add: msPerDay_def)
  then show ?thesis using u assms by linarith
qed

lemma Day_of_midnight: "Day (d * msPerDay) = d"
  by (simp add: Day_def msPerDay_def)

lemma normalizeDate_Inr:
  "normalizeDate h v = Inr r \<longleftrightarrow> v \<noteq> [] \<and> (\<exists>t. Date_parse h v = Some t \<and> r = take 10 (dateText (Day t)))"
  by (auto simp: normalizeDate_def take10_toISOString split: option.splits)

lemma normalizeDate_ymd_fixed:
  assumes "0 \<le> YearFromDay d" "YearFromDay d \<le> 9999" "\<bar>d * msPerDay\<bar> \<le> 8640000000000000"
  shows "normalizeDate h (dateText d) = Inr (dateText d)"
proof -
  let ?y = "YearFromDay d"
  let ?l = "InLeapYear ?y"
  let ?w = "d - DayFromYear ?y"
  let ?m = "monthOfDay ?w ?l"
  let ?dt = "?w - monthStart ?m ?l + 1"
  have w: "0 \<le> ?w" "?w < 365 + ?l" using dayWithinYear_bounds[of d] by auto
  have mb: "0 \<le> ?m \<and> ?m \<le> 11" "1 \<le> ?dt \<and> ?dt \<le> 31"
    using month_bounds[OF w InLeapYear_01] by auto
  have e: "dateText d = pad 4 ?y @ ''-'' @ pad 2 (?m + 1) @ ''-'' @ pad 2 ?dt"
    using dateText_ymd(1)[OF assms(1,2)] .
  have len: "length (dateText d) = 10" using dateText_ymd(2)[OF assms(1,2)] .
  have f: "isoFormat (dateText d) =
     Some \<lparr>yearF = ?y, monthF = ?m + 1, dayF = ?dt, hourF = 0, minuteF = 0, secondF = 0, msF = 0,
           zoneF = Offset 0\<rparr>"
    unfolding e using assms(1,2) mb by (intro isoFormat_ymd) auto
  have md: "MakeDay ?y ?m ?dt = d" by (rule MakeDay_of_day)
  have p: "Date_parse h (dateText d) = Some (d * msPerDay)"
    unfolding Date_parse_def f using mb assms(3) md
    by (simp add: fieldsInBounds_def timeOfFields_def MakeDate_def MakeTime_def TimeClip_def)
  have ne: "dateText d \<noteq> []" using len by auto
  show ?thesis
    using ne p len by (simp add: normalizeDate_Inr Day_of_midnight)
qed

lemma normalizeDate_idempotent_ymd:
  assumes "normalizeDate h v = Inr r" and "isYMD r"
  shows "normalizeDate h r = Inr r"
proof -
  from assms(1) obtain t where t: "Date_parse h v = Some t" and r: "r = take 10 (dateText (Day t))"
    by (auto simp: normalizeDate_Inr)
  have y: "0 \<le> YearFromDay (Day t) \<and> YearFromDay (Day t) \<le> 9999"
    using assms(2) unfolding r by (rule ymd_year_range)
  then have len: "length (dateText (Day t)) = 10" using dateText_ymd(2) by blast
  then have r': "r = dateText (Day t)" using r by simp
  have "\<bar>Day t * msPerDay\<bar> \<le> 8640000000000000"
    using Date_parse_range[OF t] by (rule Day_range)
  then show ?thesis unfolding r' using y by (intro normalizeDate_ymd_fixed) auto
qed



lemma september15_not_iso: "isoFormat ''September 15, 2024'' = None"
  by code_simp

lemma september15Midnight_value: "september15Midnight = 19981 * msPerDay"
  by code_simp

lemma september15_text: "take 10 (dateText 19981) = ''2024-09-15''" "take 10 (dateText 19980) = ''2024-09-14''"
  by code_simp+

lemma september15_parse:
  assumes "legacyParse h ''September 15, 2024'' = Some september15"
  shows "Date_parse h ''September 15, 2024'' =
           Some (september15Midnight - LocalTZA h september15Midnight)
         \<or> Date_parse h ''September 15, 2024'' = None"
  using assms
  by (simp add: Date_parse_def september15_not_iso timeOfFields_def september15_def
      september15Midnight_def TimeClip_def Let_def)

lemma september15_parse_some:
  assumes "legacyParse h ''September 15, 2024'' = Some september15"
    and "\<bar>LocalTZA h september15Midnight\<bar> \<le> msPerDay"
  shows "Date_parse h ''September 15, 2024'' =
           Some (september15Midnight - LocalTZA h september15Midnight)"
proof -
  have "\<bar>september15Midnight - LocalTZA h september15Midnight\<bar> \<le> 8640000000000000"
    using assms(2) by (simp add: september15Midnight_value msPerDay_def)
  then show ?thesis using assms(1)
    by (simp add: Date_parse_def september15_not_iso timeOfFields_def september15_def
      september15Midnight_def TimeClip_def Let_def)
qed

lemma september15_day:
  "- msPerDay < z \<Longrightarrow> z \<le> 0 \<Longrightarrow> Day (september15Midnight - z) = 19981"
  "0 < z \<Longrightarrow> z \<le> msPerDay \<Longrightarrow> Day (september15Midnight - z) = 19980"
proof -
  assume "- msPerDay < z" "z \<le> 0"
  then have "19981 * 86400000 - z = 86400000 * 19981 + (- z)" "0 \<le> - z" "- z < 86400000"
    by (simp_all add: msPerDay_def)
  then have "(19981 * 86400000 - z) div 86400000 = 19981" by (rule int_div_pos_eq)
  then show "Day (september15Midnight - z) = 19981"
    by (simp add: Day_def september15Midnight_value msPerDay_def)
next
  assume "0 < z" "z \<le> msPerDay"
  then have "19981 * 86400000 - z = 86400000 * 19980 + (86400000 - z)" "0 \<le> 86400000 - z"
    "86400000 - z < 86400000"
    by (simp_all add: msPerDay_def)
  then have "(19981 * 86400000 - z) div 86400000 = 19980" by (rule int_div_pos_eq)
  then show "Day (september15Midnight - z) = 19980"
    by (simp add: Day_def september15Midnight_value msPerDay_def)
qed


lemma normalizeDate_september15_east:
  assumes "legacyParse h ''September 15, 2024'' = Some september15"
    and "0 < LocalTZA h september15Midnight" and "LocalTZA h september15Midnight \<le> msPerDay"
  shows "normalizeDate h ''September 15, 2024'' = Inr ''2024-09-14''"
proof -
  have "\<bar>LocalTZA h september15Midnight\<bar> \<le> msPerDay" using assms(2,3) by simp
  then have "Date_parse h ''September 15, 2024'' =
         Some (september15Midnight - LocalTZA h september15Midnight)"
    using assms(1) by (intro september15_parse_some) auto
  moreover have "Day (september15Midnight - LocalTZA h september15Midnight) = 19980"
    using assms(2,3) by (intro september15_day(2)) auto
  ultimately show ?thesis by (simp add: normalizeDate_Inr september15_text)
qed




text \<open>
  Claim C5, as the code has it. Normalizing a result of \<open>normalizeDate\<close> that has the
  form \<open>YYYY-MM-DD\<close> returns it unchanged, on every host and in every time zone.
  \<open>normalizeDate\<close> fails exactly when the input is empty or \<open>Date\<close> cannot parse it:
  with "Date is required" when (and only when) the input is empty, and with
  "Invalid date" when (and only when) the input is not empty and does not parse.
\<close>

theorem normalizeDate_idempotent_and_errors:
  "(normalizeDate h v = Inr r \<and> isYMD r \<longrightarrow> normalizeDate h r = Inr r)
   \<and> (normalizeDate h v = Inl DateRequired \<longleftrightarrow> v = [])
   \<and> (normalizeDate h v = Inl InvalidDate \<longleftrightarrow> v \<noteq> [] \<and> Date_parse h v = None)
   \<and> ((\<exists>e. normalizeDate h v = Inl e) \<longleftrightarrow> v = [] \<or> Date_parse h v = None)"
proof -
  have a: "normalizeDate h v = Inr r \<and> isYMD r \<longrightarrow> normalizeDate h r = Inr r"
    using normalizeDate_idempotent_ymd by blast
  have b: "normalizeDate h v = Inl DateRequired \<longleftrightarrow> v = []"
    by (auto simp: normalizeDate_def split: option.splits)
  have c: "normalizeDate h v = Inl InvalidDate \<longleftrightarrow> v \<noteq> [] \<and> Date_parse h v = None"
    by (auto simp: normalizeDate_def split: option.splits)
  have d: "(\<exists>e. normalizeDate h v = Inl e) \<longleftrightarrow> v = [] \<or> Date_parse h v = None"
    by (auto simp: normalizeDate_def split: option.splits)
  show ?thesis using a b c d by blast
qed

theorem normalizeDate_idempotent_and_errors_witness:
  "normalizeDate (legacyHost (3 * msPerHour)) ''September 15, 2024'' = Inr ''2024-09-14''
   \<and> isYMD ''2024-09-14''
   \<and> normalizeDate (legacyHost (3 * msPerHour)) ''2024-09-14'' = Inr ''2024-09-14''
   \<and> normalizeDate (legacyHost (3 * msPerHour)) ''someday'' = Inl InvalidDate"
proof -
  have a: "normalizeDate (legacyHost (3 * msPerHour)) ''September 15, 2024'' = Inr ''2024-09-14''"
    by code_simp
  have y: "isYMD ''2024-09-14''" by code_simp
  have p: "Date_parse (legacyHost (3 * msPerHour)) ''someday'' = None" by code_simp
  show ?thesis
    using normalizeDate_idempotent_and_errors
            [of "legacyHost (3 * msPerHour)" "''September 15, 2024''" "''2024-09-14''"]
      normalizeDate_idempotent_and_errors [of "legacyHost (3 * msPerHour)" "''someday''" "[]"]
      a y p
    by simp
qed

text \<open>
  The claim as stated has the invalid-date error for the empty input. The code throws
  "Date is required" there, before it parses.
\<close>

theorem normalizeDate_empty_counterexample:
  "normalizeDate utcHost [] = Inl DateRequired \<and> normalizeDate utcHost [] \<noteq> Inl InvalidDate"
  by (simp add: normalizeDate_def)

end
